theory Spec2Isabelle
  imports Main "HOL-Library.Word" "HOL-Library.AList" "HOL-Library.Code_Target_Nat"
begin

section \<open>Values shared by the browser utilities\<close>

text \<open>
  The utilities of \<^verbatim>\<open>src/components/AppLayout/Sidebar/index.tsx\<close> (lines 157 to 263)
  work on byte arrays, strings, blobs and the page's DOM. A \<^verbatim>\<open>Uint8Array\<close> is a list
  of 8-bit words, a JavaScript string is a \<open>string\<close>, and a thrown exception or a
  rejected promise is a value of \<open>error\<close>.

  \<open>Error msg\<close> is the source's own \<^verbatim>\<open>throw new Error(msg)\<close> (the specification calls the
  two thrown by \<^verbatim>\<open>injectViewerIFrame\<close> \<^verbatim>\<open>UnsafeUrlError\<close>). The other constructors are
  failures raised below the source: by the codec (\<open>UnsupportedEncodingError\<close>,
  \<open>DecodeError\<close>), by a platform read (\<open>ReadError\<close>), by \<^verbatim>\<open>new URL\<close> or a property access on
  \<^verbatim>\<open>null\<close> (\<open>TypeError\<close>), and by \<^verbatim>\<open>removeChild\<close> (\<open>NotFoundError\<close>).
\<close>

type_synonym byte = "8 word"

datatype error =
    Error string
  | UnsupportedEncodingError
  | DecodeError
  | ReadError
  | TypeError
  | NotFoundError

datatype 'a promise = Pending | Resolved 'a | Rejected error

subsection \<open>String primitives\<close>

text \<open>\<^verbatim>\<open>s.startsWith(t)\<close> and \<^verbatim>\<open>s.includes(t)\<close>: case-sensitive, on the characters as they are.\<close>

fun startsWith :: "string \<Rightarrow> string \<Rightarrow> bool" where
  "startsWith s [] = True"
| "startsWith [] (c # t) = False"
| "startsWith (a # s) (c # t) = (a = c \<and> startsWith s t)"

fun str_includes :: "string \<Rightarrow> string \<Rightarrow> bool" where
  "str_includes [] t = (t = [])"
| "str_includes (a # s) t = (startsWith (a # s) t \<or> str_includes s t)"

text \<open>
  \<^verbatim>\<open>s.toLowerCase()\<close>, on the ASCII letters. The two strings the source lowers are hosts
  (\<^verbatim>\<open>url.host\<close> and \<^verbatim>\<open>window.location.host\<close>), which the platform hands out in ASCII.
\<close>

definition lower_char :: "char \<Rightarrow> char" where
  "lower_char c =
     (if 65 \<le> (of_char c :: nat) \<and> (of_char c :: nat) \<le> 90
      then char_of ((of_char c :: nat) + 32) else c)"

definition toLowerCase :: "string \<Rightarrow> string" where
  "toLowerCase s = map lower_char s"

section \<open>The page\<close>

text \<open>
  An element of the DOM is a tree node: the identity of the JavaScript object (\<open>handle\<close>),
  its tag, its content attributes in the order they were set, and its children. The
  source's property writes are kept under the name of the content attribute they reflect:
  \<^verbatim>\<open>iframe.className\<close> is the attribute \<^verbatim>\<open>class\<close>, \<^verbatim>\<open>element.style.display = 'none'\<close> is the
  attribute \<^verbatim>\<open>style\<close> with value \<^verbatim>\<open>display: none;\<close>, and \<^verbatim>\<open>src\<close>, \<^verbatim>\<open>title\<close>, \<^verbatim>\<open>sandbox\<close>,
  \<^verbatim>\<open>loading\<close> and \<^verbatim>\<open>allow\<close> keep their names.
\<close>

datatype element =
  Element (handle: nat) (tag: string) (attrs: "(string \<times> string) list") (kids: "element list")

text \<open>
  The state the utilities read and write: the host of \<^verbatim>\<open>window.location\<close>, the document's
  root element, the next unused object identity (so that \<^verbatim>\<open>createElement\<close> is observable
  even when the element is never attached), and the elements on which \<^verbatim>\<open>click()\<close> was
  called, as they were at that moment.
\<close>

record page =
  location_host :: string
  document :: element
  fresh :: nat
  clicked :: "element list"

fun handles :: "element \<Rightarrow> nat list" where
  "handles (Element h t a ks) = h # concat (map handles ks)"

definition wf_page :: "page \<Rightarrow> bool" where
  "wf_page g = (distinct (handles (document g)) \<and> list_all (\<lambda>h. h < fresh g) (handles (document g)))"

definition createElement :: "string \<Rightarrow> page \<Rightarrow> element \<times> page" where
  "createElement tg g = (Element (fresh g) tg [] [], g\<lparr>fresh := Suc (fresh g)\<rparr>)"

definition setAttribute :: "string \<Rightarrow> string \<Rightarrow> element \<Rightarrow> element" where
  "setAttribute k v e = Element (handle e) (tag e) (AList.update k v (attrs e)) (kids e)"

definition getAttribute :: "element \<Rightarrow> string \<Rightarrow> string option" where
  "getAttribute e k = map_of (attrs e) k"

text \<open>
  \<^verbatim>\<open>document.getElementById(i)\<close>: the first element in tree order (an element before its
  children, children from first to last) whose \<^verbatim>\<open>id\<close> attribute is \<open>i\<close>; an empty \<^verbatim>\<open>id\<close> is
  no identifier. \<open>None\<close> is \<^verbatim>\<open>null\<close>.
\<close>

fun first_some :: "'a option list \<Rightarrow> 'a option" where
  "first_some [] = None"
| "first_some (None # xs) = first_some xs"
| "first_some (Some x # xs) = Some x"

fun getElementById :: "element \<Rightarrow> string \<Rightarrow> element option" where
  "getElementById (Element h t a ks) i =
     (if i \<noteq> [] \<and> map_of a ''id'' = Some i then Some (Element h t a ks)
      else first_some (map (\<lambda>k. getElementById k i) ks))"

text \<open>
  \<^verbatim>\<open>document.body\<close>: the first child of the \<^verbatim>\<open>html\<close> root that is a \<^verbatim>\<open>body\<close> or a \<^verbatim>\<open>frameset\<close>.
\<close>

definition document_body :: "element \<Rightarrow> element option" where
  "document_body d =
     (if tag d = ''html'' then List.find (\<lambda>k. tag k = ''body'' \<or> tag k = ''frameset'') (kids d)
      else None)"

text \<open>
  \<^verbatim>\<open>parent.appendChild(c)\<close> for a node \<open>c\<close> that has no parent yet (both callers pass the
  element they have just created): \<open>c\<close> becomes the last child of the node with the
  parent's handle.
\<close>

fun appendChild :: "nat \<Rightarrow> element \<Rightarrow> element \<Rightarrow> element" where
  "appendChild p c (Element h t a ks) =
     Element h t a (map (appendChild p c) ks @ (if h = p then [c] else []))"

text \<open>
  \<^verbatim>\<open>parent.removeChild(c)\<close>: \<open>NotFoundError\<close> unless \<open>c\<close> is a child of the parent; otherwise
  the child is taken out of the parent's children.
\<close>

fun has_child :: "nat \<Rightarrow> nat \<Rightarrow> element \<Rightarrow> bool" where
  "has_child p c (Element h t a ks) =
     ((h = p \<and> list_ex (\<lambda>k. handle k = c) ks) \<or> list_ex (has_child p c) ks)"

fun dropChild :: "nat \<Rightarrow> nat \<Rightarrow> element \<Rightarrow> element" where
  "dropChild p c (Element h t a ks) =
     Element h t a
       (if h = p then filter (\<lambda>k. handle k \<noteq> c) (map (dropChild p c) ks)
        else map (dropChild p c) ks)"

definition removeChild :: "nat \<Rightarrow> nat \<Rightarrow> element \<Rightarrow> error + element" where
  "removeChild p c d = (if has_child p c d then Inr (dropChild p c d) else Inl NotFoundError)"

text \<open>
  \<^verbatim>\<open>element.click()\<close>: the element, as it is now, is recorded as activated. No listener of
  the page is modelled, so the document itself is left as it is.
\<close>

definition click :: "element \<Rightarrow> page \<Rightarrow> page" where
  "click e g = g\<lparr>clicked := clicked g @ [e]\<rparr>"

section \<open>injectViewerIFrame\<close>

text \<open>
  The result of \<^verbatim>\<open>new URL(fileUrl)\<close>, of which the source reads \<^verbatim>\<open>host\<close> only. The parser
  is the platform's: it is a parameter \<open>new_URL\<close> of the model, \<open>None\<close> where the constructor
  throws \<^verbatim>\<open>TypeError\<close>.
\<close>

record url =
  protocol :: string
  host :: string

record viewer_params =
  destinationId :: string
  title :: string
  fileUrl :: string
  className :: "string option"

definition data_url_message :: string where
  "data_url_message = ''You can not inject an iFrame with a data url.  Try a regular https URL.''"

definition same_origin_message :: string where
  "same_origin_message = ''You cannot host a LIT on the same domain as the parent webpage.  This is because iFrames with the same origin have access to localstorage and cookies in the parent webpage which is unsafe''"

definition sandbox_value :: string where
  "sandbox_value = ''allow-forms allow-scripts allow-popups  allow-modals allow-popups-to-escape-sandbox allow-same-origin''"

definition allow_value :: string where
  "allow_value = ''accelerometer; ambient-light-sensor; autoplay; battery; camera; display-capture; encrypted-media; fullscreen; geolocation; gyroscope; layout-animations; legacy-image-formats; magnetometer; microphone; midi; payment; picture-in-picture; publickey-credentials-get; sync-xhr; usb; vr; screen-wake-lock; web-share; xr-spatial-tracking''"

text \<open>
  Lines 251 to 261: the iframe as it is when it is appended. \<^verbatim>\<open>if (className)\<close> is false for
  an omitted and for an empty class name.
\<close>

definition viewer_iframe :: "viewer_params \<Rightarrow> element \<Rightarrow> element" where
  "viewer_iframe p iframe0 =
     (let iframe1 = setAttribute ''src'' (fileUrl p) iframe0;
          iframe2 = setAttribute ''title'' (title p) iframe1;
          iframe3 = setAttribute ''sandbox'' sandbox_value iframe2;
          iframe4 = setAttribute ''loading'' ''lazy'' iframe3;
          iframe5 = setAttribute ''allow'' allow_value iframe4
      in case className p of
           None \<Rightarrow> iframe5
         | Some c \<Rightarrow> if c \<noteq> [] then setAttribute ''class'' c iframe5 else iframe5)"

definition injectViewerIFrame ::
  "(string \<Rightarrow> url option) \<Rightarrow> viewer_params \<Rightarrow> page \<Rightarrow> (error + unit) \<times> page" where
  "injectViewerIFrame new_URL p g =
     (if str_includes (fileUrl p) ''data:'' then (Inl (Error data_url_message), g)
      else case new_URL (fileUrl p) of
        None \<Rightarrow> (Inl TypeError, g)
      | Some u \<Rightarrow>
          if toLowerCase (host u) = toLowerCase (location_host g)
          then (Inl (Error same_origin_message), g)
          else
            (case createElement ''iframe'' g of (iframe0, g1) \<Rightarrow>
               (case getElementById (document g1) (destinationId p) of
                  None \<Rightarrow> (Inl TypeError, g1)
                | Some dest \<Rightarrow>
                    (Inr (), g1\<lparr>document :=
                       appendChild (handle dest) (viewer_iframe p iframe0) (document g1)\<rparr>))))"

section \<open>The codec\<close>

text \<open>
  Modelled from the spec: the codec dependency, the package \<^verbatim>\<open>uint8arrays\<close> whose \<^verbatim>\<open>toString\<close>
  and \<^verbatim>\<open>fromString\<close> line 157 imports; its code is not part of the sources. The
  specification describes it as \<^verbatim>\<open>encode(bytes, schemeName) -> text\<close> and
  \<^verbatim>\<open>decode(text, schemeName) -> bytes\<close> over a fixed registry of named schemes, raising on an
  unsupported name and on malformed text; the source's comments point to the multibase table
  for the names. A string of the model is the UTF-8 form of the JavaScript text.

  The registry modelled here holds the schemes of that table that write the bits of the
  bytes as digits of 1, 3, 4, 5 or 6 bits (RFC 4648: \<^verbatim>\<open>base2\<close>, \<^verbatim>\<open>base8\<close> and the \<^verbatim>\<open>base16\<close>,
  \<^verbatim>\<open>base32\<close> and \<^verbatim>\<open>base64\<close> families), those that write the bytes as one number
  (\<^verbatim>\<open>base10\<close>, \<^verbatim>\<open>base36\<close>, \<^verbatim>\<open>base58btc\<close> and their kin), and the package's own names: \<^verbatim>\<open>hex\<close>,
  the text schemes \<^verbatim>\<open>utf8\<close> and \<^verbatim>\<open>utf-8\<close> (and \<^verbatim>\<open>identity\<close> of the table), which read the bytes
  as UTF-8, and \<^verbatim>\<open>ascii\<close>, \<^verbatim>\<open>latin1\<close> and \<^verbatim>\<open>binary\<close>. The one name left out is
  \<^verbatim>\<open>base256emoji\<close>.
\<close>

subsection \<open>Numbers and their digits\<close>

text \<open>
  A fixed number of digits of a number in a base, most significant first, and the number
  of a list of digits.
\<close>

primrec digits :: "nat \<Rightarrow> nat \<Rightarrow> nat \<Rightarrow> nat list" where
  "digits b 0 v = []"
| "digits b (Suc n) v = digits b n (v div b) @ [v mod b]"

definition undigits :: "nat \<Rightarrow> nat list \<Rightarrow> nat" where
  "undigits b ds = foldl (\<lambda>a d. a * b + d) 0 ds"

subsection \<open>The schemes of RFC 4648\<close>

text \<open>
  Modelled from the spec: the bits of the bytes, first byte first and high bit first, cut
  into digits of \<open>bitsPerChar\<close> bits; the last digit is filled up with zero bits.
\<close>

definition rfc4648_digits :: "nat \<Rightarrow> nat list \<Rightarrow> nat list" where
  "rfc4648_digits bitsPerChar bytes =
     (let count = (8 * length bytes + bitsPerChar - 1) div bitsPerChar;
          spare = count * bitsPerChar - 8 * length bytes
      in digits (2 ^ bitsPerChar) count (undigits 256 bytes * 2 ^ spare))"

text \<open>
  Modelled from the spec: the way back. The bits of the digits are cut into bytes; the bits
  that are left over have to be fewer than one digit and all zero, or the text is malformed
  (\<open>None\<close>).
\<close>

definition rfc4648_bytes :: "nat \<Rightarrow> nat list \<Rightarrow> nat list option" where
  "rfc4648_bytes bitsPerChar ds =
     (let count = (length ds * bitsPerChar) div 8;
          spare = length ds * bitsPerChar - 8 * count;
          v = undigits (2 ^ bitsPerChar) ds
      in if spare < bitsPerChar \<and> v mod 2 ^ spare = 0
         then Some (digits 256 count (v div 2 ^ spare)) else None)"

fun index_of :: "'a list \<Rightarrow> 'a \<Rightarrow> nat option" where
  "index_of [] x = None"
| "index_of (y # ys) x = (if x = y then Some 0 else map_option Suc (index_of ys x))"

text \<open>
  Padding: \<^verbatim>\<open>=\<close> is appended until the digits written so far hold a whole number of bytes.
\<close>

definition pad_count :: "nat \<Rightarrow> nat \<Rightarrow> nat" where
  "pad_count bitsPerChar len =
     (case List.find (\<lambda>p. ((len + p) * bitsPerChar) mod 8 = 0) [0..<8] of
        Some p \<Rightarrow> p
      | None \<Rightarrow> 0)"

definition add_padding :: "nat \<Rightarrow> string \<Rightarrow> string" where
  "add_padding bitsPerChar s = s @ replicate (pad_count bitsPerChar (length s)) (CHR ''='')"

definition strip_padding :: "string \<Rightarrow> string" where
  "strip_padding s = rev (dropWhile (\<lambda>c. c = CHR ''='') (rev s))"

text \<open>
  Modelled from the spec: the encoder and the decoder of one such scheme of the absent
  codec, by its alphabet, the bits of a digit and whether it pads. The decoder drops
  trailing \<^verbatim>\<open>=\<close> and raises \<open>DecodeError\<close> on a character outside the alphabet and on digits
  that end inside a byte.
\<close>

definition rfc4648_encode :: "string \<Rightarrow> nat \<Rightarrow> bool \<Rightarrow> byte list \<Rightarrow> string" where
  "rfc4648_encode alphabet bitsPerChar padded bytes =
     (let out = map (\<lambda>n. alphabet ! n) (rfc4648_digits bitsPerChar (map unat bytes))
      in if padded then add_padding bitsPerChar out else out)"

definition rfc4648_decode :: "string \<Rightarrow> nat \<Rightarrow> string \<Rightarrow> error + byte list" where
  "rfc4648_decode alphabet bitsPerChar text =
     (case those (map (index_of alphabet) (strip_padding text)) of
        None \<Rightarrow> Inl DecodeError
      | Some ds \<Rightarrow>
          (case rfc4648_bytes bitsPerChar ds of
             None \<Rightarrow> Inl DecodeError
           | Some bs \<Rightarrow> Inr (map of_nat bs)))"

definition base2_alphabet :: string where
  "base2_alphabet = ''01''"

definition base8_alphabet :: string where
  "base8_alphabet = ''01234567''"

definition base16_alphabet :: string where
  "base16_alphabet = ''0123456789abcdef''"

definition base16upper_alphabet :: string where
  "base16upper_alphabet = ''0123456789ABCDEF''"

definition base32_alphabet :: string where
  "base32_alphabet = ''abcdefghijklmnopqrstuvwxyz234567''"

definition base32upper_alphabet :: string where
  "base32upper_alphabet = ''ABCDEFGHIJKLMNOPQRSTUVWXYZ234567''"

definition base32hex_alphabet :: string where
  "base32hex_alphabet = ''0123456789abcdefghijklmnopqrstuv''"

definition base32hexupper_alphabet :: string where
  "base32hexupper_alphabet = ''0123456789ABCDEFGHIJKLMNOPQRSTUV''"

definition base32z_alphabet :: string where
  "base32z_alphabet = ''ybndrfg8ejkmcpqxot1uwisza345h769''"

definition base64_alphabet :: string where
  "base64_alphabet = ''ABCDEFGHIJKLMNOPQRSTUVWXYZabcdefghijklmnopqrstuvwxyz0123456789+/''"

definition base64url_alphabet :: string where
  "base64url_alphabet = ''ABCDEFGHIJKLMNOPQRSTUVWXYZabcdefghijklmnopqrstuvwxyz0123456789-_''"

subsection \<open>The schemes that write one number\<close>

text \<open>
  The digits of a number without leading zeros, most significant first.
\<close>

function vdigits :: "nat \<Rightarrow> nat \<Rightarrow> nat list" where
  "vdigits b v = (if v = 0 \<or> b < 2 then [] else vdigits b (v div b) @ [v mod b])"
  by pat_completeness auto
termination
  by (relation "measure snd") auto

declare vdigits.simps [simp del]

text \<open>
  Modelled from the spec: the encoder and the decoder of a scheme of the absent codec that
  reads the bytes as one number and writes it in the base of its alphabet (\<^verbatim>\<open>base10\<close>,
  \<^verbatim>\<open>base36\<close>, \<^verbatim>\<open>base58btc\<close> and their kin). Each leading zero byte is written as the first
  character of the alphabet, and read back as one zero byte. The decoder raises
  \<open>DecodeError\<close> on a character outside the alphabet.
\<close>

definition basex_encode :: "string \<Rightarrow> byte list \<Rightarrow> string" where
  "basex_encode alphabet bytes =
     (let bs = map unat bytes;
          zeroes = length (takeWhile (\<lambda>b. b = 0) bs)
      in replicate zeroes (alphabet ! 0)
         @ map (\<lambda>n. alphabet ! n) (vdigits (length alphabet) (undigits 256 bs)))"

definition basex_decode :: "string \<Rightarrow> string \<Rightarrow> error + byte list" where
  "basex_decode alphabet text =
     (case those (map (index_of alphabet) text) of
        None \<Rightarrow> Inl DecodeError
      | Some ds \<Rightarrow>
          (let zeroes = length (takeWhile (\<lambda>d. d = 0) ds)
           in Inr (map of_nat (replicate zeroes 0 @ vdigits 256 (undigits (length alphabet) ds)))))"

definition base10_alphabet :: string where
  "base10_alphabet = ''0123456789''"

definition base36_alphabet :: string where
  "base36_alphabet = ''0123456789abcdefghijklmnopqrstuvwxyz''"

definition base36upper_alphabet :: string where
  "base36upper_alphabet = ''0123456789ABCDEFGHIJKLMNOPQRSTUVWXYZ''"

definition base58btc_alphabet :: string where
  "base58btc_alphabet = ''123456789ABCDEFGHJKLMNPQRSTUVWXYZabcdefghijkmnopqrstuvwxyz''"

definition base58flickr_alphabet :: string where
  "base58flickr_alphabet = ''123456789abcdefghijkmnopqrstuvwxyzABCDEFGHJKLMNPQRSTUVWXYZ''"

subsection \<open>The text schemes\<close>

text \<open>
  Modelled from the spec: the platform's UTF-8 decoder, which the text schemes of the absent
  codec call. The text it returns is given in its UTF-8 form: a well-formed sequence stands
  for its own character, and every maximal ill-formed part (a byte that starts no
  sequence, a sequence cut short by a byte that cannot continue it or by the end) is the
  replacement character U+FFFD, whose UTF-8 form is the three bytes below.
\<close>

definition replacement :: "nat list" where
  "replacement = [0xEF, 0xBF, 0xBD]"

definition continues :: "nat \<Rightarrow> nat \<Rightarrow> nat \<Rightarrow> bool" where
  "continues lower upper c = (lower \<le> c \<and> c \<le> upper)"

text \<open>The bounds of the byte after the first byte of a sequence of three or four.\<close>

definition second_lower :: "nat \<Rightarrow> nat" where
  "second_lower b = (if b = 0xE0 then 0xA0 else if b = 0xF0 then 0x90 else 0x80)"

definition second_upper :: "nat \<Rightarrow> nat" where
  "second_upper b = (if b = 0xED then 0x9F else if b = 0xF4 then 0x8F else 0xBF)"

fun utf8_decode :: "nat list \<Rightarrow> nat list" where
  "utf8_decode [] = []"
| "utf8_decode (b # bs) =
     (if b < 0x80 then b # utf8_decode bs
      else if 0xC2 \<le> b \<and> b \<le> 0xDF then
        (case bs of
           [] \<Rightarrow> replacement
         | c1 # r1 \<Rightarrow>
             if continues 0x80 0xBF c1 then b # c1 # utf8_decode r1
             else replacement @ utf8_decode bs)
      else if 0xE0 \<le> b \<and> b \<le> 0xEF then
        (case bs of
           [] \<Rightarrow> replacement
         | c1 # r1 \<Rightarrow>
             if continues (second_lower b) (second_upper b) c1 then
               (case r1 of
                  [] \<Rightarrow> replacement
                | c2 # r2 \<Rightarrow>
                    if continues 0x80 0xBF c2 then b # c1 # c2 # utf8_decode r2
                    else replacement @ utf8_decode r1)
             else replacement @ utf8_decode bs)
      else if 0xF0 \<le> b \<and> b \<le> 0xF4 then
        (case bs of
           [] \<Rightarrow> replacement
         | c1 # r1 \<Rightarrow>
             if continues (second_lower b) (second_upper b) c1 then
               (case r1 of
                  [] \<Rightarrow> replacement
                | c2 # r2 \<Rightarrow>
                    if continues 0x80 0xBF c2 then
                      (case r2 of
                         [] \<Rightarrow> replacement
                       | c3 # r3 \<Rightarrow>
                           if continues 0x80 0xBF c3 then b # c1 # c2 # c3 # utf8_decode r3
                           else replacement @ utf8_decode r2)
                    else replacement @ utf8_decode r1)
             else replacement @ utf8_decode bs)
      else replacement @ utf8_decode bs)"

text \<open>
  Modelled from the spec: \<^verbatim>\<open>new TextDecoder().decode(bytes)\<close>, which skips a byte order mark at
  the start, and \<^verbatim>\<open>new TextEncoder().encode(text)\<close>, the UTF-8 form of the text.
\<close>

definition text_decode :: "byte list \<Rightarrow> string" where
  "text_decode bytes =
     (let bs = map unat bytes
      in map char_of (utf8_decode (if take 3 bs = [0xEF, 0xBB, 0xBF] then drop 3 bs else bs)))"

definition text_encode :: "string \<Rightarrow> byte list" where
  "text_encode text = map (\<lambda>c. of_nat (of_char c)) text"

text \<open>
  Modelled from the spec: the schemes \<^verbatim>\<open>ascii\<close>, \<^verbatim>\<open>latin1\<close> and \<^verbatim>\<open>binary\<close> of the absent codec,
  which are one scheme: each byte is written as the character with that code
  (\<^verbatim>\<open>String.fromCharCode\<close>), and each UTF-16 code unit of a text is read as a byte
  (\<^verbatim>\<open>charCodeAt\<close>, of which a byte array keeps the low eight bits). In the UTF-8 form of the
  text a character from 128 to 255 is two bytes, and a character beyond U+FFFF is two
  code units.
\<close>

definition char_bytes :: "nat \<Rightarrow> nat list" where
  "char_bytes b = (if b < 0x80 then [b] else [0xC0 + b div 64, 0x80 + b mod 64])"

fun code_units :: "nat list \<Rightarrow> nat list" where
  "code_units [] = []"
| "code_units (b # bs) =
     (if b < 0x80 then b # code_units bs
      else if b < 0xE0 then
        (case bs of
           c1 # r \<Rightarrow> ((b - 0xC0) * 64 + (c1 - 0x80)) # code_units r
         | _ \<Rightarrow> [])
      else if b < 0xF0 then
        (case bs of
           c1 # c2 # r \<Rightarrow> ((b - 0xE0) * 4096 + (c1 - 0x80) * 64 + (c2 - 0x80)) # code_units r
         | _ \<Rightarrow> [])
      else
        (case bs of
           c1 # c2 # c3 # r \<Rightarrow>
             (let cp = (b - 0xF0) * 262144 + (c1 - 0x80) * 4096 + (c2 - 0x80) * 64 + (c3 - 0x80)
              in (0xD800 + (cp - 0x10000) div 1024) # (0xDC00 + (cp - 0x10000) mod 1024)
                 # code_units r)
         | _ \<Rightarrow> []))"

definition ascii_encode :: "byte list \<Rightarrow> string" where
  "ascii_encode bytes = map char_of (concat (map (\<lambda>b. char_bytes (unat b)) bytes))"

definition ascii_decode :: "string \<Rightarrow> byte list" where
  "ascii_decode text = map of_nat (code_units (utf8_decode (map of_char text)))"

subsection \<open>The registry\<close>

datatype scheme = Rfc4648 string nat bool | BaseX string | Utf8 | Ascii

text \<open>
  Modelled from the spec: the registry of the absent codec, from a scheme name to the
  scheme; \<open>None\<close> for a name that is not in it.
\<close>

definition codec_registry :: "string \<Rightarrow> scheme option" where
  "codec_registry encoding =
     map_of
       [(''utf8'', Utf8),
        (''utf-8'', Utf8),
        (''identity'', Utf8),
        (''ascii'', Ascii),
        (''latin1'', Ascii),
        (''binary'', Ascii),
        (''hex'', Rfc4648 base16_alphabet 4 False),
        (''base2'', Rfc4648 base2_alphabet 1 False),
        (''base8'', Rfc4648 base8_alphabet 3 False),
        (''base16'', Rfc4648 base16_alphabet 4 False),
        (''base16upper'', Rfc4648 base16upper_alphabet 4 False),
        (''base32'', Rfc4648 base32_alphabet 5 False),
        (''base32upper'', Rfc4648 base32upper_alphabet 5 False),
        (''base32pad'', Rfc4648 base32_alphabet 5 True),
        (''base32padupper'', Rfc4648 base32upper_alphabet 5 True),
        (''base32hex'', Rfc4648 base32hex_alphabet 5 False),
        (''base32hexupper'', Rfc4648 base32hexupper_alphabet 5 False),
        (''base32hexpad'', Rfc4648 base32hex_alphabet 5 True),
        (''base32hexpadupper'', Rfc4648 base32hexupper_alphabet 5 True),
        (''base32z'', Rfc4648 base32z_alphabet 5 False),
        (''base10'', BaseX base10_alphabet),
        (''base36'', BaseX base36_alphabet),
        (''base36upper'', BaseX base36upper_alphabet),
        (''base58btc'', BaseX base58btc_alphabet),
        (''base58flickr'', BaseX base58flickr_alphabet),
        (''base64'', Rfc4648 base64_alphabet 6 False),
        (''base64pad'', Rfc4648 base64_alphabet 6 True),
        (''base64url'', Rfc4648 base64url_alphabet 6 False),
        (''base64urlpad'', Rfc4648 base64url_alphabet 6 True)]
       encoding"

definition supported_encoding :: "string \<Rightarrow> bool" where
  "supported_encoding encoding = (codec_registry encoding \<noteq> None)"

text \<open>
  Modelled from the spec: \<^verbatim>\<open>toString\<close> and \<^verbatim>\<open>fromString\<close> of the absent package, imported on
  line 157 under the names below: \<^verbatim>\<open>encode(bytes, schemeName)\<close> and \<^verbatim>\<open>decode(text, schemeName)\<close>
  of the specification, raising on a scheme name outside the registry.
\<close>

definition uint8arrayToStringFromLib :: "byte list \<Rightarrow> string \<Rightarrow> error + string" where
  "uint8arrayToStringFromLib uint8array encoding =
     (case codec_registry encoding of
        None \<Rightarrow> Inl UnsupportedEncodingError
      | Some (Rfc4648 alphabet bitsPerChar padded) \<Rightarrow>
          Inr (rfc4648_encode alphabet bitsPerChar padded uint8array)
      | Some (BaseX alphabet) \<Rightarrow> Inr (basex_encode alphabet uint8array)
      | Some Utf8 \<Rightarrow> Inr (text_decode uint8array)
      | Some Ascii \<Rightarrow> Inr (ascii_encode uint8array))"

definition uint8arrayFromStringFromLib :: "string \<Rightarrow> string \<Rightarrow> error + byte list" where
  "uint8arrayFromStringFromLib str encoding =
     (case codec_registry encoding of
        None \<Rightarrow> Inl UnsupportedEncodingError
      | Some (Rfc4648 alphabet bitsPerChar padded) \<Rightarrow> rfc4648_decode alphabet bitsPerChar str
      | Some (BaseX alphabet) \<Rightarrow> basex_decode alphabet str
      | Some Utf8 \<Rightarrow> Inr (text_encode str)
      | Some Ascii \<Rightarrow> Inr (ascii_decode str))"

subsection \<open>The source's two wrappers (lines 181 to 192)\<close>

definition uint8arrayToString :: "byte list \<Rightarrow> string \<Rightarrow> error + string" where
  "uint8arrayToString uint8array encoding = uint8arrayToStringFromLib uint8array encoding"

definition uint8arrayFromString :: "string \<Rightarrow> string \<Rightarrow> error + byte list" where
  "uint8arrayFromString str encoding = uint8arrayFromStringFromLib str encoding"

section \<open>Blobs and files\<close>

text \<open>
  A \<^verbatim>\<open>Blob\<close> (a \<^verbatim>\<open>File\<close> is one) is its bytes and its media type; \<open>blob_readable\<close> is
  whether the platform can still read the bytes when asked (a file on disk may have gone).
  \<^verbatim>\<open>blob.arrayBuffer()\<close> is fulfilled with the bytes or rejected with the read error, and
  \<^verbatim>\<open>new Blob(parts)\<close> with no options holds the parts in memory under the empty type.
\<close>

record blob =
  blob_bytes :: "byte list"
  blob_type :: string
  blob_readable :: bool

definition arrayBuffer :: "blob \<Rightarrow> byte list promise" where
  "arrayBuffer b = (if blob_readable b then Resolved (blob_bytes b) else Rejected ReadError)"

definition new_Blob :: "byte list list \<Rightarrow> blob" where
  "new_Blob parts = \<lparr>blob_bytes = concat parts, blob_type = [], blob_readable = True\<rparr>"

text \<open>Lines 163 to 166: an \<^verbatim>\<open>async\<close> function; whatever is thrown in it rejects its promise.\<close>

definition blobToBase64String :: "blob \<Rightarrow> string promise" where
  "blobToBase64String b =
     (case arrayBuffer b of
        Pending \<Rightarrow> Pending
      | Rejected e \<Rightarrow> Rejected e
      | Resolved ab \<Rightarrow>
          (case uint8arrayToString ab ''base64urlpad'' of
             Inl e \<Rightarrow> Rejected e
           | Inr s \<Rightarrow> Resolved s))"

text \<open>Lines 172 to 174.\<close>

definition base64StringToBlob :: "string \<Rightarrow> error + blob" where
  "base64StringToBlob base64String =
     (case uint8arrayFromString base64String ''base64urlpad'' of
        Inl e \<Rightarrow> Inl e
      | Inr bytes \<Rightarrow> Inr (new_Blob [bytes]))"

subsection \<open>fileToDataUrl\<close>

text \<open>
  \<^verbatim>\<open>FileReader.readAsDataURL\<close>: the platform reads the file and then fires its events on
  the reader. A read that succeeds leaves the data URL in \<^verbatim>\<open>reader.result\<close> (the media type,
  \<^verbatim>\<open>application/octet-stream\<close> for a file without one, and the padded base64 of the bytes)
  and fires \<^verbatim>\<open>load\<close>; a read that fails leaves \<^verbatim>\<open>null\<close> (\<open>None\<close>) and fires \<^verbatim>\<open>error\<close>. In both
  cases \<^verbatim>\<open>loadend\<close> is fired last.
\<close>

datatype reader_event = EvLoadStart | EvLoad | EvError | EvLoadEnd

definition readAsDataURL :: "blob \<Rightarrow> string option \<times> reader_event list" where
  "readAsDataURL file =
     (if blob_readable file
      then (Some (''data:''
                  @ (if blob_type file = [] then ''application/octet-stream'' else blob_type file)
                  @ '';base64,'' @ rfc4648_encode base64_alphabet 6 True (blob_bytes file)),
            [EvLoadStart, EvLoad, EvLoadEnd])
      else (None, [EvLoadStart, EvError, EvLoadEnd]))"

text \<open>\<^verbatim>\<open>resolve(v)\<close> settles a pending promise and does nothing to a settled one.\<close>

fun resolve :: "'a \<Rightarrow> 'a promise \<Rightarrow> 'a promise" where
  "resolve v Pending = Resolved v"
| "resolve v p = p"

text \<open>
  Lines 199 to 207. The executor sets one handler, \<^verbatim>\<open>onloadend\<close>, which resolves the promise
  with \<^verbatim>\<open>reader.result\<close>; no handler is set for \<^verbatim>\<open>error\<close>, and \<^verbatim>\<open>reject\<close> is never called. The
  promise is what the platform's events leave of it. Its value is \<open>Some s\<close> for the string
  \<open>s\<close> and \<open>None\<close> for \<^verbatim>\<open>null\<close>.
\<close>

definition fileToDataUrl :: "blob \<Rightarrow> string option promise" where
  "fileToDataUrl file =
     (case readAsDataURL file of
        (result, events) \<Rightarrow>
          foldl (\<lambda>p ev. if ev = EvLoadEnd then resolve result p else p) Pending events)"

section \<open>downloadFile\<close>

record download_params =
  filename :: string
  data :: "byte list"
  mimetype :: string

text \<open>
  Lines 217 to 228, statement by statement. \<^verbatim>\<open>document.body\<close> is read twice, and each read
  of \<^verbatim>\<open>null\<close> is a \<^verbatim>\<open>TypeError\<close> on the property access that follows it.
\<close>

definition downloadFile :: "download_params \<Rightarrow> page \<Rightarrow> (error + unit) \<times> page" where
  "downloadFile p g =
     (case createElement ''a'' g of (element0, g1) \<Rightarrow>
        (case uint8arrayToString (data p) ''base64'' of
           Inl e \<Rightarrow> (Inl e, g1)
         | Inr b64 \<Rightarrow>
             (let element1 = setAttribute ''href'' (''data:'' @ mimetype p @ '';base64,'' @ b64) element0;
                  element2 = setAttribute ''download'' (filename p) element1;
                  element3 = setAttribute ''style'' ''display: none;'' element2
              in case document_body (document g1) of
                   None \<Rightarrow> (Inl TypeError, g1)
                 | Some body \<Rightarrow>
                     (let g2 = g1\<lparr>document := appendChild (handle body) element3 (document g1)\<rparr>;
                          g3 = click element3 g2
                      in case document_body (document g3) of
                           None \<Rightarrow> (Inl TypeError, g3)
                         | Some body' \<Rightarrow>
                             (case removeChild (handle body') (handle element3) (document g3) of
                                Inl e \<Rightarrow> (Inl e, g3)
                              | Inr d \<Rightarrow> (Inr (), g3\<lparr>document := d\<rparr>))))))"

section \<open>Reading the page back\<close>

text \<open>
  What the theorems below use to say what a call has left in the page: an element with one
  more last child, the \<^verbatim>\<open>className\<close> property of an element (the \<^verbatim>\<open>class\<close> attribute, the empty
  string without one), and the last child of the element that carries a given id.
\<close>

definition with_child :: "element \<Rightarrow> element \<Rightarrow> element" where
  "with_child d c = Element (handle d) (tag d) (attrs d) (kids d @ [c])"

definition className_of :: "element \<Rightarrow> string" where
  "className_of e = (case getAttribute e ''class'' of None \<Rightarrow> [] | Some c \<Rightarrow> c)"

definition appended_iframe :: "page \<Rightarrow> string \<Rightarrow> element option" where
  "appended_iframe g i =
     (case getElementById (document g) i of
        None \<Rightarrow> None
      | Some d \<Rightarrow> if kids d = [] then None else Some (last (kids d)))"

section \<open>Sample inputs\<close>

text \<open>
  A page served from \<^verbatim>\<open>example.com\<close> whose body holds one \<^verbatim>\<open>div\<close> with the id \<^verbatim>\<open>viewer\<close>, and
  what \<^verbatim>\<open>new URL\<close> returns on the URLs the examples below use: the scheme comes back in
  lower case, the host of an \<^verbatim>\<open>https\<close> URL in lower case, the host of a URL with a scheme of
  its own as it was written, and a \<^verbatim>\<open>data:\<close> URL has the empty host.
\<close>

definition sample_page :: page where
  "sample_page =
     \<lparr>location_host = ''example.com'',
      document =
        Element 0 ''html'' []
          [Element 1 ''head'' [] [],
           Element 2 ''body'' [] [Element 3 ''div'' [(''id'', ''viewer'')] []]],
      fresh = 4,
      clicked = []\<rparr>"

definition sample_URL :: "string \<Rightarrow> url option" where
  "sample_URL s =
     (if s = ''https://cdn.example.org/viewer.html''
        then Some \<lparr>protocol = ''https:'', host = ''cdn.example.org''\<rparr>
      else if s = ''https://EXAMPLE.com/lit.html''
        then Some \<lparr>protocol = ''https:'', host = ''example.com''\<rparr>
      else if s = ''lit://EXAMPLE.com/lit.html''
        then Some \<lparr>protocol = ''lit:'', host = ''EXAMPLE.com''\<rparr>
      else if s = ''DATA:text/html,hi''
        then Some \<lparr>protocol = ''data:'', host = []\<rparr>
      else None)"

section \<open>Substrings\<close>

lemma startsWith_append: "startsWith (t @ b) t"
  by (induction t) auto

lemma str_includes_append: "str_includes (a @ t @ b) t"
proof (induction a)
  case Nil
  show ?case by (cases "t @ b") (use startsWith_append[of t b] in auto)
next
  case (Cons x a)
  then show ?case by simp
qed

section \<open>The tree operations\<close>

lemma appendChild_absent: "p \<notin> set (handles e) \<Longrightarrow> appendChild p c e = e"
  by (induction e) (auto simp: map_idI)

lemma first_some_mapD: "first_some (map f ks) = Some d \<Longrightarrow> \<exists>k\<in>set ks. f k = Some d"
proof (induction ks)
  case Nil
  then show ?case by simp
next
  case (Cons k ks)
  then show ?case by (cases "f k") auto
qed

lemma getElementById_handle: "getElementById e i = Some d \<Longrightarrow> handle d \<in> set (handles e)"
proof (induction e arbitrary: d)
  case (Element h t a ks)
  show ?case
  proof (cases "i \<noteq> [] \<and> map_of a ''id'' = Some i")
    case True
    with Element.prems show ?thesis by auto
  next
    case False
    with Element.prems have "first_some (map (\<lambda>k. getElementById k i) ks) = Some d" by auto
    then obtain k where "k \<in> set ks" "getElementById k i = Some d"
      using first_some_mapD by fastforce
    with Element.IH show ?thesis by auto
  qed
qed

lemma first_some_appendChild:
  assumes IH: "\<And>k. k \<in> set ks \<Longrightarrow> distinct (handles k) \<Longrightarrow> getElementById k i = Some d
                 \<Longrightarrow> getElementById (appendChild (handle d) c k) i = Some d'"
    and "distinct (concat (map handles ks))"
    and "first_some (map (\<lambda>k. getElementById k i) ks) = Some d"
  shows "first_some (map (\<lambda>k. getElementById (appendChild (handle d) c k) i) ks) = Some d'"
  using assms
proof (induction ks)
  case Nil
  then show ?case by simp
next
  case (Cons k ks)
  show ?case
  proof (cases "getElementById k i")
    case (Some x)
    with Cons.prems(3) have "x = d" by simp
    with Some Cons.prems(1)[of k] Cons.prems(2) show ?thesis by simp
  next
    case None
    with Cons.prems(3) have rest: "first_some (map (\<lambda>k. getElementById k i) ks) = Some d" by simp
    then obtain k' where "k' \<in> set ks" "getElementById k' i = Some d"
      using first_some_mapD by fastforce
    then have "handle d \<in> set (concat (map handles ks))"
      using getElementById_handle by fastforce
    with Cons.prems(2) have "handle d \<notin> set (handles k)" by auto
    then have same: "appendChild (handle d) c k = k" by (rule appendChild_absent)
    have "first_some (map (\<lambda>k. getElementById (appendChild (handle d) c k) i) ks) = Some d'"
      using Cons.IH Cons.prems(1) Cons.prems(2) rest by simp
    with same None show ?thesis by simp
  qed
qed

lemma getElementById_appendChild:
  "distinct (handles e) \<Longrightarrow> getElementById e i = Some d
   \<Longrightarrow> getElementById (appendChild (handle d) c e) i = Some (with_child d c)"
proof (induction e)
  case (Element h t a ks)
  show ?case
  proof (cases "i \<noteq> [] \<and> map_of a ''id'' = Some i")
    case True
    with Element.prems have d: "d = Element h t a ks" by simp
    have "map (appendChild h c) ks = ks"
    proof (rule map_idI)
      fix k assume "k \<in> set ks"
      with Element.prems(1) have "h \<notin> set (handles k)" by auto
      then show "appendChild h c k = k" by (rule appendChild_absent)
    qed
    with True d show ?thesis by (simp add: with_child_def)
  next
    case False
    with Element.prems have fs: "first_some (map (\<lambda>k. getElementById k i) ks) = Some d" by auto
    then obtain k where "k \<in> set ks" "getElementById k i = Some d"
      using first_some_mapD by fastforce
    then have "handle d \<in> set (concat (map handles ks))"
      using getElementById_handle by fastforce
    with Element.prems(1) have neq: "h \<noteq> handle d" by auto
    have "first_some (map (\<lambda>k. getElementById (appendChild (handle d) c k) i) ks)
            = Some (with_child d c)"
      using Element.IH Element.prems(1) fs by (intro first_some_appendChild) auto
    with False neq show ?thesis by (auto simp: comp_def)
  qed
qed

lemma length_handles_appendChild:
  "length (handles (appendChild p c e)) = length (handles e) + count_list (handles e) p * length (handles c)"
proof (induction e)
  case (Element h t a ks)
  have "length (concat (map handles (map (appendChild p c) ks)))
        = length (concat (map handles ks)) + count_list (concat (map handles ks)) p * length (handles c)"
    using Element.IH by (induction ks) (auto simp: algebra_simps)
  then show ?case by (auto simp: algebra_simps)
qed

lemma count_list_distinct: "distinct xs \<Longrightarrow> x \<in> set xs \<Longrightarrow> count_list xs x = 1"
  by (induction xs) auto

section \<open>Attributes and the frame that is built\<close>

lemma getAttribute_setAttribute:
  "getAttribute (setAttribute k v e) k' = (if k' = k then Some v else getAttribute e k')"
  by (simp add: getAttribute_def setAttribute_def update_conv')

lemma setAttribute_sel:
  "handle (setAttribute k v e) = handle e" "tag (setAttribute k v e) = tag e"
  "kids (setAttribute k v e) = kids e"
  by (simp_all add: setAttribute_def)

lemma viewer_iframe_sel:
  "handle (viewer_iframe p e) = handle e" "tag (viewer_iframe p e) = tag e"
  "kids (viewer_iframe p e) = kids e"
  by (simp_all add: viewer_iframe_def Let_def setAttribute_sel split: option.splits)

lemma viewer_iframe_attrs:
  "getAttribute (viewer_iframe p e) ''src'' = Some (fileUrl p)"
  "getAttribute (viewer_iframe p e) ''title'' = Some (title p)"
  "getAttribute (viewer_iframe p e) ''sandbox'' = Some sandbox_value"
  "getAttribute (viewer_iframe p e) ''loading'' = Some ''lazy''"
  "getAttribute (viewer_iframe p e) ''allow'' = Some allow_value"
  by (simp_all add: viewer_iframe_def Let_def getAttribute_setAttribute split: option.splits)

lemma viewer_iframe_className:
  "className p = Some c \<Longrightarrow> className_of (viewer_iframe p (Element h t [] [])) = c"
  by (simp add: viewer_iframe_def Let_def className_of_def getAttribute_setAttribute)
     (simp add: getAttribute_def)

section \<open>Facts about the sample inputs\<close>

lemma sample_page_wf: "wf_page sample_page"
  by (simp add: wf_page_def sample_page_def)

lemma sample_page_viewer:
  "getElementById (document sample_page) ''viewer'' = Some (Element 3 ''div'' [(''id'', ''viewer'')] [])"
  by (simp add: sample_page_def)

lemma lower_example:
  "toLowerCase ''EXAMPLE.com'' = ''example.com''"
  "toLowerCase ''example.com'' = ''example.com''"
  "toLowerCase ''cdn.example.org'' = ''cdn.example.org''"
  "toLowerCase ''other.example'' = ''other.example''"
  "toLowerCase [] = []"
  by code_simp+

section \<open>The guards of injectViewerIFrame\<close>

text \<open>
  C9. \<^verbatim>\<open>injectViewerIFrame\<close> throws the data-URL error for every \<^verbatim>\<open>fileUrl\<close> that has
  \<^verbatim>\<open>data:\<close> somewhere in it, whatever stands before and after it (an \<^verbatim>\<open>https\<close> URL with
  \<^verbatim>\<open>data:\<close> in its path or query as well), whatever the URL parser would say of it and
  whatever the other parameters are; the page is left as it was.
\<close>

theorem injectViewerIFrame_data_substring:
  "injectViewerIFrame new_URL
     \<lparr>destinationId = d, title = t, fileUrl = before @ ''data:'' @ after, className = c\<rparr> g
   = (Inl (Error data_url_message), g)"
  using str_includes_append[of before "''data:''" after]
  by (simp add: injectViewerIFrame_def)

text \<open>
  C1, at an input the first guard does not stop. The scheme of a URL is read without regard
  to case, so \<^verbatim>\<open>DATA:text/html,hi\<close> is an inline data URL (\<^verbatim>\<open>new URL\<close> gives it the protocol
  \<^verbatim>\<open>data:\<close> and the empty host), but the guard of line 239 looks for the lower-case text
  \<^verbatim>\<open>data:\<close> only. On the sample page the call returns normally and the frame is mounted with
  the data URL as its source.
\<close>

theorem data_scheme_upper_case_accepted:
  "\<not> str_includes ''DATA:text/html,hi'' ''data:''
   \<and> sample_URL ''DATA:text/html,hi'' = Some \<lparr>protocol = ''data:'', host = []\<rparr>
   \<and> injectViewerIFrame sample_URL
        \<lparr>destinationId = ''viewer'', title = ''LIT'', fileUrl = ''DATA:text/html,hi'',
         className = None\<rparr> sample_page
       = (Inr (),
          sample_page\<lparr>document :=
            Element 0 ''html'' []
              [Element 1 ''head'' [] [],
               Element 2 ''body'' []
                 [Element 3 ''div'' [(''id'', ''viewer'')]
                    [Element 4 ''iframe''
                       [(''src'', ''DATA:text/html,hi''), (''title'', ''LIT''),
                        (''sandbox'', sandbox_value), (''loading'', ''lazy''),
                        (''allow'', allow_value)] []]]],
            fresh := 5\<rparr>)"
  by (simp add: injectViewerIFrame_def sample_URL_def sample_page_def createElement_def
      viewer_iframe_def setAttribute_def toLowerCase_def)

text \<open>
  C2. When the host of the parsed \<^verbatim>\<open>fileUrl\<close> and the host of the page are equal once both
  are lowered, the call throws one of the source's two errors (the data-URL one if the
  first guard fires already, the same-origin one otherwise) and the page, the counter of
  created elements included, is as it was: no element was created or appended.
\<close>

theorem same_host_rejected:
  assumes "new_URL (fileUrl p) = Some u"
    "toLowerCase (host u) = toLowerCase (location_host g)"
  shows "injectViewerIFrame new_URL p g =
     (Inl (Error (if str_includes (fileUrl p) ''data:'' then data_url_message
                  else same_origin_message)), g)"
  using assms by (simp add: injectViewerIFrame_def)

theorem same_host_rejected_witness:
  "sample_URL ''lit://EXAMPLE.com/lit.html'' = Some \<lparr>protocol = ''lit:'', host = ''EXAMPLE.com''\<rparr>
   \<and> toLowerCase ''EXAMPLE.com'' = toLowerCase (location_host sample_page)
   \<and> injectViewerIFrame sample_URL
        \<lparr>destinationId = ''viewer'', title = ''LIT'', fileUrl = ''lit://EXAMPLE.com/lit.html'',
         className = None\<rparr> sample_page
       = (Inl (Error same_origin_message), sample_page)"
  using same_host_rejected[of sample_URL
      "\<lparr>destinationId = ''viewer'', title = ''LIT'', fileUrl = ''lit://EXAMPLE.com/lit.html'',
        className = None\<rparr>"
      "\<lparr>protocol = ''lit:'', host = ''EXAMPLE.com''\<rparr>" sample_page]
  by (simp add: sample_URL_def sample_page_def lower_example)

section \<open>The mounted frame\<close>

lemma injectViewerIFrame_passes:
  assumes "\<not> str_includes (fileUrl p) ''data:''" "new_URL (fileUrl p) = Some u"
    "toLowerCase (host u) \<noteq> toLowerCase (location_host g)"
    "getElementById (document g) (destinationId p) = Some dest"
  shows "injectViewerIFrame new_URL p g =
     (Inr (), g\<lparr>document := appendChild (handle dest)
                  (viewer_iframe p (Element (fresh g) ''iframe'' [] [])) (document g),
               fresh := Suc (fresh g)\<rparr>)"
  using assms by (simp add: injectViewerIFrame_def createElement_def)

lemma injectViewerIFrame_InrD:
  assumes "injectViewerIFrame new_URL p g = (Inr (), g')"
  shows "\<exists>dest. getElementById (document g) (destinationId p) = Some dest \<and>
     g' = g\<lparr>document := appendChild (handle dest)
                  (viewer_iframe p (Element (fresh g) ''iframe'' [] [])) (document g),
               fresh := Suc (fresh g)\<rparr>"
  using assms
  by (auto simp: injectViewerIFrame_def createElement_def split: if_splits option.splits)

lemma appended_iframe_after:
  assumes "distinct (handles (document g))"
    "getElementById (document g) i = Some dest"
  shows "appended_iframe (g\<lparr>document := appendChild (handle dest) c (document g), fresh := n\<rparr>) i = Some c"
  using getElementById_appendChild[OF assms, of c]
  by (simp add: appended_iframe_def with_child_def)

text \<open>
  C4. On a page whose elements have distinct identities, a call whose \<^verbatim>\<open>fileUrl\<close> passes both
  guards (no \<^verbatim>\<open>data:\<close> in it, it parses, its host differs from the page's) and whose
  \<^verbatim>\<open>destinationId\<close> resolves to an element returns normally. Afterwards the id resolves to
  that same element with exactly one more child, appended last: a newly created \<^verbatim>\<open>iframe\<close>
  without children whose \<^verbatim>\<open>src\<close> is \<^verbatim>\<open>fileUrl\<close>, whose \<^verbatim>\<open>title\<close> is \<^verbatim>\<open>title\<close> and whose
  \<^verbatim>\<open>className\<close> is the given class name (the empty string when none is given). The document
  has grown by one element.
\<close>

theorem injectViewerIFrame_appends:
  assumes "wf_page g" "\<not> str_includes (fileUrl p) ''data:''" "new_URL (fileUrl p) = Some u"
    "toLowerCase (host u) \<noteq> toLowerCase (location_host g)"
    "getElementById (document g) (destinationId p) = Some dest"
  shows "\<exists>g' iframe. injectViewerIFrame new_URL p g = (Inr (), g')
     \<and> getElementById (document g') (destinationId p) = Some (with_child dest iframe)
     \<and> length (handles (document g')) = Suc (length (handles (document g)))
     \<and> handle iframe = fresh g \<and> tag iframe = ''iframe'' \<and> kids iframe = []
     \<and> getAttribute iframe ''src'' = Some (fileUrl p)
     \<and> getAttribute iframe ''title'' = Some (title p)
     \<and> className_of iframe = (case className p of None \<Rightarrow> [] | Some c \<Rightarrow> c)"
proof -
  let ?f = "viewer_iframe p (Element (fresh g) ''iframe'' [] [])"
  let ?d = "appendChild (handle dest) ?f (document g)"
  have dist: "distinct (handles (document g))" using assms(1) by (simp add: wf_page_def)
  have run: "injectViewerIFrame new_URL p g = (Inr (), g\<lparr>document := ?d, fresh := Suc (fresh g)\<rparr>)"
    using assms(2-5) by (rule injectViewerIFrame_passes)
  have found: "getElementById ?d (destinationId p) = Some (with_child dest ?f)"
    using dist assms(5) by (rule getElementById_appendChild)
  have "handle dest \<in> set (handles (document g))"
    using assms(5) by (rule getElementById_handle)
  then have "count_list (handles (document g)) (handle dest) = 1"
    using dist by (simp add: count_list_distinct)
  moreover have "handles ?f = [fresh g]"
    by (cases ?f) (use viewer_iframe_sel[of p "Element (fresh g) ''iframe'' [] []"] in auto)
  ultimately have size: "length (handles ?d) = Suc (length (handles (document g)))"
    by (simp add: length_handles_appendChild)
  have cls: "className_of ?f = (case className p of None \<Rightarrow> [] | Some c \<Rightarrow> c)"
    by (cases "className p")
       (simp_all add: viewer_iframe_className, simp add: viewer_iframe_def className_of_def getAttribute_setAttribute, simp add: getAttribute_def)
  show ?thesis
    by (rule exI[of _ "g\<lparr>document := ?d, fresh := Suc (fresh g)\<rparr>"], rule exI[of _ ?f])
       (use run found size cls in \<open>simp add: viewer_iframe_sel viewer_iframe_attrs\<close>)
qed

theorem injectViewerIFrame_appends_witness:
  "wf_page sample_page
   \<and> \<not> str_includes ''https://cdn.example.org/viewer.html'' ''data:''
   \<and> sample_URL ''https://cdn.example.org/viewer.html''
       = Some \<lparr>protocol = ''https:'', host = ''cdn.example.org''\<rparr>
   \<and> toLowerCase ''cdn.example.org'' \<noteq> toLowerCase (location_host sample_page)
   \<and> getElementById (document sample_page) ''viewer''
       = Some (Element 3 ''div'' [(''id'', ''viewer'')] [])
   \<and> (\<exists>g' iframe.
         injectViewerIFrame sample_URL
           \<lparr>destinationId = ''viewer'', title = ''LIT'',
            fileUrl = ''https://cdn.example.org/viewer.html'', className = Some ''lit-viewer''\<rparr>
           sample_page = (Inr (), g')
       \<and> getElementById (document g') ''viewer''
           = Some (with_child (Element 3 ''div'' [(''id'', ''viewer'')] []) iframe)
       \<and> length (handles (document g')) = Suc (length (handles (document sample_page)))
       \<and> handle iframe = fresh sample_page \<and> tag iframe = ''iframe'' \<and> kids iframe = []
       \<and> getAttribute iframe ''src'' = Some ''https://cdn.example.org/viewer.html''
       \<and> getAttribute iframe ''title'' = Some ''LIT''
       \<and> className_of iframe = ''lit-viewer'')"
proof -
  let ?p = "\<lparr>destinationId = ''viewer'', title = ''LIT'',
            fileUrl = ''https://cdn.example.org/viewer.html'', className = Some ''lit-viewer''\<rparr>"
  let ?u = "\<lparr>protocol = ''https:'', host = ''cdn.example.org''\<rparr>"
  have h2: "\<not> str_includes (fileUrl ?p) ''data:''" by simp
  have h3: "sample_URL (fileUrl ?p) = Some ?u" by (simp add: sample_URL_def)
  have h4: "toLowerCase (host ?u) \<noteq> toLowerCase (location_host sample_page)"
    by (simp add: sample_page_def lower_example)
  have h5: "getElementById (document sample_page) (destinationId ?p)
            = Some (Element 3 ''div'' [(''id'', ''viewer'')] [])"
    by (simp add: sample_page_viewer)
  show ?thesis
    using injectViewerIFrame_appends[of sample_page ?p sample_URL ?u, OF sample_page_wf h2 h3 h4 h5]
      sample_page_wf h2 h3 h4 h5
    by simp
qed

text \<open>
  C8. Take any two calls that return normally, on pages whose elements have distinct
  identities, with any URL parsers, parameters and pages. Each has appended, as the last
  child of its destination, the element it created, and the \<^verbatim>\<open>sandbox\<close> and \<^verbatim>\<open>allow\<close>
  attributes of the two appended frames are equal: they are the two constants of lines 255
  and 258, which no parameter reaches.
\<close>

theorem allow_lists_fixed:
  assumes "wf_page g1" "wf_page g2"
    "injectViewerIFrame new_URL1 p1 g1 = (Inr (), g1')"
    "injectViewerIFrame new_URL2 p2 g2 = (Inr (), g2')"
  shows "\<exists>f1 f2. appended_iframe g1' (destinationId p1) = Some f1
     \<and> appended_iframe g2' (destinationId p2) = Some f2
     \<and> handle f1 = fresh g1 \<and> handle f2 = fresh g2
     \<and> getAttribute f1 ''sandbox'' = getAttribute f2 ''sandbox''
     \<and> getAttribute f1 ''allow'' = getAttribute f2 ''allow''
     \<and> getAttribute f1 ''sandbox'' = Some sandbox_value
     \<and> getAttribute f1 ''allow'' = Some allow_value"
proof -
  let ?f1 = "viewer_iframe p1 (Element (fresh g1) ''iframe'' [] [])"
  let ?f2 = "viewer_iframe p2 (Element (fresh g2) ''iframe'' [] [])"
  from assms(3) obtain d1 where d1: "getElementById (document g1) (destinationId p1) = Some d1"
    and g1': "g1' = g1\<lparr>document := appendChild (handle d1) ?f1 (document g1), fresh := Suc (fresh g1)\<rparr>"
    using injectViewerIFrame_InrD by blast
  from assms(4) obtain d2 where d2: "getElementById (document g2) (destinationId p2) = Some d2"
    and g2': "g2' = g2\<lparr>document := appendChild (handle d2) ?f2 (document g2), fresh := Suc (fresh g2)\<rparr>"
    using injectViewerIFrame_InrD by blast
  have a1: "appended_iframe g1' (destinationId p1) = Some ?f1"
    unfolding g1' using assms(1) d1 by (intro appended_iframe_after) (simp_all add: wf_page_def)
  have a2: "appended_iframe g2' (destinationId p2) = Some ?f2"
    unfolding g2' using assms(2) d2 by (intro appended_iframe_after) (simp_all add: wf_page_def)
  show ?thesis
    by (rule exI[of _ ?f1], rule exI[of _ ?f2])
       (simp add: a1 a2 viewer_iframe_sel viewer_iframe_attrs)
qed

theorem allow_lists_fixed_witness:
  "wf_page sample_page \<and> wf_page (sample_page\<lparr>location_host := ''other.example''\<rparr>)
   \<and> (\<exists>g1' g2' f1 f2.
         injectViewerIFrame sample_URL
           \<lparr>destinationId = ''viewer'', title = ''LIT'',
            fileUrl = ''https://cdn.example.org/viewer.html'', className = Some ''lit-viewer''\<rparr>
           sample_page = (Inr (), g1')
       \<and> injectViewerIFrame sample_URL
           \<lparr>destinationId = ''viewer'', title = ''Other'',
            fileUrl = ''lit://EXAMPLE.com/lit.html'', className = None\<rparr>
           (sample_page\<lparr>location_host := ''other.example''\<rparr>) = (Inr (), g2')
       \<and> appended_iframe g1' ''viewer'' = Some f1
       \<and> appended_iframe g2' ''viewer'' = Some f2
       \<and> getAttribute f1 ''sandbox'' = getAttribute f2 ''sandbox''
       \<and> getAttribute f1 ''allow'' = getAttribute f2 ''allow'')"
proof -
  let ?p1 = "\<lparr>destinationId = ''viewer'', title = ''LIT'',
            fileUrl = ''https://cdn.example.org/viewer.html'', className = Some ''lit-viewer''\<rparr>"
  let ?p2 = "\<lparr>destinationId = ''viewer'', title = ''Other'',
            fileUrl = ''lit://EXAMPLE.com/lit.html'', className = None\<rparr>"
  let ?g2 = "sample_page\<lparr>location_host := ''other.example''\<rparr>"
  have w2: "wf_page ?g2" using sample_page_wf by (simp add: wf_page_def)
  obtain g1' where r1: "injectViewerIFrame sample_URL ?p1 sample_page = (Inr (), g1')"
    by (simp add: injectViewerIFrame_def sample_URL_def sample_page_def lower_example
        createElement_def)
  obtain g2' where r2: "injectViewerIFrame sample_URL ?p2 ?g2 = (Inr (), g2')"
    by (simp add: injectViewerIFrame_def sample_URL_def sample_page_def lower_example
        createElement_def)
  from allow_lists_fixed[OF sample_page_wf w2 r1 r2] show ?thesis
    using sample_page_wf w2 r1 r2 by auto
qed

section \<open>The codec: decoding after encoding\<close>

subsection \<open>Digits\<close>

lemma length_digits: "length (digits b n v) = n"
  by (induction n arbitrary: v) simp_all

lemma undigits_snoc: "undigits b (ds @ [d]) = undigits b ds * b + d"
  by (simp add: undigits_def)

lemma undigits_Nil: "undigits b [] = 0"
  by (simp add: undigits_def)

lemma undigits_digits: "undigits b (digits b n v) = v mod b ^ n"
proof (induction n arbitrary: v)
  case 0
  show ?case by (simp add: undigits_Nil)
next
  case (Suc n)
  have "v mod (b * b ^ n) = b * (v div b mod b ^ n) + v mod b"
    by (rule mod_mult2_eq)
  with Suc show ?case by (simp add: undigits_snoc mult.commute)
qed

lemma digits_undigits:
  "list_all (\<lambda>d. d < b) ds \<Longrightarrow> digits b (length ds) (undigits b ds) = ds"
proof (induction ds rule: rev_induct)
  case Nil
  show ?case by simp
next
  case (snoc d ds)
  then have "d < b" and all: "list_all (\<lambda>d. d < b) ds" by simp_all
  then have "(undigits b ds * b + d) div b = undigits b ds" "(undigits b ds * b + d) mod b = d"
    by simp_all
  with snoc.IH[OF all] show ?case by (simp add: undigits_snoc)
qed

lemma undigits_less:
  "list_all (\<lambda>d. d < b) ds \<Longrightarrow> undigits b ds < b ^ length ds"
proof (induction ds rule: rev_induct)
  case Nil
  show ?case by (simp add: undigits_Nil)
next
  case (snoc d ds)
  then have d: "d < b" and "undigits b ds < b ^ length ds" by simp_all
  then have "undigits b ds + 1 \<le> b ^ length ds" by simp
  then have "(undigits b ds + 1) * b \<le> b ^ length ds * b" by (rule mult_le_mono1)
  then have "undigits b ds * b + b \<le> b * b ^ length ds" by (simp add: algebra_simps)
  with d have "undigits b ds * b + d < b * b ^ length ds" by linarith
  then show ?case by (simp add: undigits_snoc)
qed

lemma digits_bounded: "0 < b \<Longrightarrow> list_all (\<lambda>d. d < b) (digits b n v)"
  by (induction n arbitrary: v) simp_all

text \<open>The count of digits is the least that holds all the bits.\<close>

lemma digit_count:
  fixes m n :: nat
  assumes "0 < n"
  shows "8 * m \<le> (8 * m + n - 1) div n * n" "(8 * m + n - 1) div n * n < 8 * m + n"
proof -
  let ?q = "(8 * m + n - 1) div n"
  let ?r = "(8 * m + n - 1) mod n"
  have eq: "?q * n + ?r = 8 * m + n - 1" by simp
  have r: "?r < n" using assms by simp
  from eq r assms show "8 * m \<le> ?q * n" by linarith
  from eq assms show "?q * n < 8 * m + n" by linarith
qed

lemma rfc4648_bytes_digits:
  assumes n: "0 < n" "n \<le> 8" and small: "list_all (\<lambda>b. b < 256) bs"
  shows "rfc4648_bytes n (rfc4648_digits n bs) = Some bs"
proof -
  define m where "m = length bs"
  define d where "d = (8 * m + n - 1) div n"
  define k where "k = d * n - 8 * m"
  define N where "N = undigits 256 bs"
  have lo: "8 * m \<le> d * n" and hi: "d * n < 8 * m + n"
    unfolding d_def using digit_count[OF n(1), of m] by simp_all
  have bits: "8 * m + k = d * n" using lo by (simp add: k_def)
  have "N < 256 ^ m" unfolding N_def m_def using small by (rule undigits_less)
  also have "(256::nat) ^ m = 2 ^ (8 * m)" by (simp add: power_mult)
  finally have "N * 2 ^ k < 2 ^ (8 * m) * 2 ^ k" by simp
  also have "\<dots> = 2 ^ (d * n)" by (simp add: power_add[symmetric] bits)
  also have "\<dots> = (2 ^ n) ^ d" by (simp add: power_mult[symmetric] mult.commute)
  finally have V: "N * 2 ^ k < (2 ^ n) ^ d" .
  have enc: "rfc4648_digits n bs = digits (2 ^ n) d (N * 2 ^ k)"
    by (simp add: rfc4648_digits_def Let_def m_def d_def k_def N_def)
  have len: "length (rfc4648_digits n bs) = d"
    by (simp add: enc length_digits)
  have val: "undigits (2 ^ n) (rfc4648_digits n bs) = N * 2 ^ k"
    using V by (simp add: enc undigits_digits)
  have count: "(d * n) div 8 = m" using lo hi n(2) by simp
  have spare: "d * n - 8 * m = k" by (simp add: k_def)
  have k: "k < n" unfolding k_def using hi n(1) by linarith
  have restored: "digits 256 m N = bs"
    unfolding m_def N_def using small by (rule digits_undigits)
  show ?thesis
    using k restored by (simp add: rfc4648_bytes_def Let_def len val count spare)
qed

subsection \<open>Alphabets and padding\<close>

lemma index_of_nth: "distinct xs \<Longrightarrow> n < length xs \<Longrightarrow> index_of xs (xs ! n) = Some n"
proof (induction xs arbitrary: n)
  case Nil
  then show ?case by simp
next
  case (Cons x xs)
  show ?case
  proof (cases n)
    case 0
    then show ?thesis by simp
  next
    case (Suc m)
    with Cons.prems have "xs ! m \<in> set xs" "x \<notin> set xs" by auto
    then have "xs ! m \<noteq> x" by auto
    with Suc Cons show ?thesis by simp
  qed
qed

lemma those_index_of_digits:
  "distinct al \<Longrightarrow> list_all (\<lambda>n. n < length al) ns
   \<Longrightarrow> those (map (index_of al) (map (\<lambda>n. al ! n) ns)) = Some ns"
  by (induction ns) (simp_all add: index_of_nth)

lemma dropWhile_replicate_pad:
  "c \<notin> set s \<Longrightarrow> dropWhile (\<lambda>x. x = c) (replicate k c @ rev s) = rev s"
proof (induction k)
  case 0
  show ?case
  proof (cases "rev s")
    case Nil
    then show ?thesis by simp
  next
    case (Cons x xs)
    then have "x \<in> set s" by (metis list.set_intros(1) set_rev)
    with 0 Cons show ?thesis by auto
  qed
next
  case (Suc k)
  then show ?case by simp
qed

lemma strip_padding_digits:
  "CHR ''='' \<notin> set s \<Longrightarrow> strip_padding (s @ replicate k (CHR ''='')) = s"
  by (simp add: strip_padding_def dropWhile_replicate_pad)

lemma strip_padding_none: "CHR ''='' \<notin> set s \<Longrightarrow> strip_padding s = s"
  using strip_padding_digits[of s 0] by simp

lemma digits_in_alphabet:
  "list_all (\<lambda>n. n < length al) ns \<Longrightarrow> set (map (\<lambda>n. al ! n) ns) \<subseteq> set al"
  by (induction ns) auto

lemma unat_bytes_small: "list_all (\<lambda>b. b < 256) (map unat (bs :: byte list))"
proof (induction bs)
  case Nil
  show ?case by simp
next
  case (Cons b bs)
  have "unat b < 2 ^ LENGTH(8)" by (rule unsigned_less)
  with Cons show ?case by simp
qed

lemma rfc4648_roundtrip:
  assumes "distinct al" "length al = 2 ^ n" "CHR ''='' \<notin> set al" "0 < n" "n \<le> 8"
  shows "rfc4648_decode al n (rfc4648_encode al n padded bs) = Inr bs"
proof -
  let ?ns = "rfc4648_digits n (map unat bs)"
  let ?out = "map (\<lambda>n. al ! n) ?ns"
  have "list_all (\<lambda>d. d < 2 ^ n) ?ns"
    by (simp add: rfc4648_digits_def Let_def digits_bounded)
  with assms(2) have inb: "list_all (\<lambda>n. n < length al) ?ns" by simp
  then have "set ?out \<subseteq> set al" by (rule digits_in_alphabet)
  with assms(3) have nopad: "CHR ''='' \<notin> set ?out" by blast
  have strip: "strip_padding (rfc4648_encode al n padded bs) = ?out"
    using nopad
    by (simp add: rfc4648_encode_def Let_def add_padding_def strip_padding_digits
        strip_padding_none del: set_map)
  have "those (map (index_of al) ?out) = Some ?ns"
    using assms(1) inb by (rule those_index_of_digits)
  moreover have "rfc4648_bytes n ?ns = Some (map unat bs)"
    using assms(4,5) unat_bytes_small by (rule rfc4648_bytes_digits)
  moreover have "map of_nat (map unat bs) = bs" by (simp add: map_idI)
  ultimately show ?thesis by (simp add: rfc4648_decode_def strip)
qed

subsection \<open>Numbers without leading zeros\<close>

lemma vdigits_0: "vdigits b 0 = []"
  by (simp add: vdigits.simps)

lemma vdigits_pos: "0 < v \<Longrightarrow> 2 \<le> b \<Longrightarrow> vdigits b v = vdigits b (v div b) @ [v mod b]"
  by (subst vdigits.simps) simp

lemma undigits_vdigits: "2 \<le> b \<Longrightarrow> undigits b (vdigits b v) = v"
proof (induction b v rule: vdigits.induct)
  case (1 b v)
  show ?case
  proof (cases "v = 0")
    case True
    then show ?thesis by (simp add: vdigits_0 undigits_Nil)
  next
    case False
    with 1 show ?thesis by (simp add: vdigits_pos undigits_snoc)
  qed
qed

lemma vdigits_bounded: "list_all (\<lambda>d. d < b) (vdigits b v)"
proof (induction b v rule: vdigits.induct)
  case (1 b v)
  show ?case
  proof (cases "v = 0 \<or> b < 2")
    case True
    then show ?thesis by (subst vdigits.simps) simp
  next
    case False
    with 1 show ?thesis by (simp add: vdigits_pos)
  qed
qed

lemma undigits_zero_iff:
  "0 < b \<Longrightarrow> undigits b ds = 0 \<longleftrightarrow> list_all (\<lambda>d. d = 0) ds"
  by (induction ds rule: rev_induct) (simp_all add: undigits_Nil undigits_snoc)

lemma dropWhile_zeros: "list_all (\<lambda>d. d = (0::nat)) ds \<Longrightarrow> dropWhile (\<lambda>d. d = 0) ds = []"
  by (induction ds) simp_all

lemma dropWhile_snoc_nonzero:
  "\<not> list_all (\<lambda>d. d = (0::nat)) ds \<Longrightarrow>
   dropWhile (\<lambda>d. d = 0) (ds @ [d]) = dropWhile (\<lambda>d. d = 0) ds @ [d]"
  by (induction ds) auto

lemma vdigits_undigits:
  "2 \<le> b \<Longrightarrow> list_all (\<lambda>d. d < b) ds \<Longrightarrow> vdigits b (undigits b ds) = dropWhile (\<lambda>d. d = 0) ds"
proof (induction ds rule: rev_induct)
  case Nil
  show ?case by (simp add: undigits_Nil vdigits_0)
next
  case (snoc d ds)
  then have d: "d < b" and all: "list_all (\<lambda>d. d < b) ds" by simp_all
  have IH: "vdigits b (undigits b ds) = dropWhile (\<lambda>d. d = 0) ds" using snoc.IH snoc.prems(1) all by simp
  let ?u = "undigits b ds"
  have divmod: "(?u * b + d) div b = ?u" "(?u * b + d) mod b = d" using d by simp_all
  show ?case
  proof (cases "list_all (\<lambda>d. d = 0) ds")
    case True
    then have u: "?u = 0" using snoc.prems(1) by (simp add: undigits_zero_iff)
    have dw: "dropWhile (\<lambda>d. d = 0) (ds @ [d]) = (if d = 0 then [] else [d])"
      using True by (induction ds) simp_all
    show ?thesis
    proof (cases "d = 0")
      case True
      with u dw show ?thesis by (simp add: undigits_snoc vdigits_0)
    next
      case False
      with u dw d snoc.prems(1) show ?thesis
        by (simp add: undigits_snoc vdigits_pos vdigits_0)
    qed
  next
    case False
    then have "?u \<noteq> 0" using snoc.prems(1) by (simp add: undigits_zero_iff)
    then have "0 < ?u * b + d" using snoc.prems(1) by simp
    then have "vdigits b (?u * b + d) = vdigits b ?u @ [d]"
      using snoc.prems(1) divmod by (simp add: vdigits_pos)
    with IH False show ?thesis by (simp add: undigits_snoc dropWhile_snoc_nonzero)
  qed
qed

lemma vdigits_no_leading_zero: "takeWhile (\<lambda>d. d = 0) (vdigits b v) = []"
proof (induction b v rule: vdigits.induct)
  case (1 b v)
  show ?case
  proof (cases "v = 0 \<or> b < 2")
    case True
    then show ?thesis by (subst vdigits.simps) simp
  next
    case False
    then have v: "0 < v" "2 \<le> b" by simp_all
    show ?thesis
    proof (cases "v div b = 0")
      case True
      then have "v < b" using v by (simp add: div_eq_0_iff)
      with v True show ?thesis by (simp add: vdigits_pos vdigits_0)
    next
      case False
      then have "vdigits b (v div b) \<noteq> []" using v by (simp add: vdigits_pos)
      moreover have "takeWhile (\<lambda>d. d = 0) (vdigits b (v div b)) = []" using 1 v by simp
      ultimately show ?thesis using v
        by (cases "vdigits b (v div b)") (simp_all add: vdigits_pos split: if_splits)
    qed
  qed
qed

lemma undigits_leading_zeros: "undigits b (replicate z 0 @ ds) = undigits b ds"
  by (induction z) (simp_all add: undigits_def)

lemma takeWhile_replicate_zeros:
  "takeWhile (\<lambda>d. d = 0) ds = [] \<Longrightarrow> takeWhile (\<lambda>d. d = (0::nat)) (replicate z 0 @ ds) = replicate z 0"
  by (induction z) simp_all

lemma takeWhile_zeros: "takeWhile (\<lambda>d. d = (0::nat)) bs = replicate (length (takeWhile (\<lambda>d. d = 0) bs)) 0"
  by (induction bs) simp_all

lemma basex_roundtrip:
  assumes "distinct al" "2 \<le> length al"
  shows "basex_decode al (basex_encode al bs) = Inr bs"
proof -
  let ?bs = "map unat bs"
  let ?z = "length (takeWhile (\<lambda>b. b = 0) ?bs)"
  let ?vd = "vdigits (length al) (undigits 256 ?bs)"
  let ?ds = "replicate ?z 0 @ ?vd"
  have inb: "list_all (\<lambda>n. n < length al) ?ds"
    using assms(2) vdigits_bounded[of "length al" "undigits 256 ?bs"] by (auto simp: list_all_iff)
  have out: "basex_encode al bs = map (\<lambda>n. al ! n) ?ds"
    by (simp add: basex_encode_def Let_def map_replicate)
  have idx: "those (map (index_of al) (basex_encode al bs)) = Some ?ds"
    unfolding out using assms(1) inb by (rule those_index_of_digits)
  have zeros: "length (takeWhile (\<lambda>d. d = 0) ?ds) = ?z"
    by (simp add: takeWhile_replicate_zeros vdigits_no_leading_zero)
  have "undigits (length al) ?ds = undigits 256 ?bs"
    using assms(2) by (simp add: undigits_leading_zeros undigits_vdigits)
  then have "vdigits 256 (undigits (length al) ?ds) = dropWhile (\<lambda>d. d = 0) ?bs"
    using unat_bytes_small[of bs] by (simp add: vdigits_undigits)
  moreover have "replicate ?z 0 @ dropWhile (\<lambda>d. d = 0) ?bs = ?bs"
    using takeWhile_zeros[of ?bs] takeWhile_dropWhile_id[of "\<lambda>d. d = 0" ?bs] by simp
  ultimately have "replicate ?z 0 @ vdigits 256 (undigits (length al) ?ds) = ?bs" by simp
  then have "map of_nat (replicate ?z 0 @ vdigits 256 (undigits (length al) ?ds)) = bs"
    by (simp only: map_map) (simp add: map_idI)
  then show ?thesis
    by (simp add: basex_decode_def Let_def idx zeros del: map_append)
qed

subsection \<open>Characters as bytes\<close>

lemma char_bytes_decoded:
  assumes "b < 256"
  shows "utf8_decode (char_bytes b @ rest) = char_bytes b @ utf8_decode rest"
proof (cases "b < 0x80")
  case True
  then show ?thesis by (simp add: char_bytes_def)
next
  case False
  with assms have "b div 64 = 2 \<or> b div 64 = 3" by linarith
  moreover have "b mod 64 < 64" by simp
  ultimately show ?thesis
    by (auto simp: char_bytes_def continues_def)
qed

lemma char_bytes_units:
  assumes "b < 256"
  shows "code_units (char_bytes b @ rest) = b # code_units rest"
proof (cases "b < 0x80")
  case True
  then show ?thesis by (simp add: char_bytes_def)
next
  case False
  with assms have "b div 64 = 2 \<or> b div 64 = 3" by linarith
  moreover have "b div 64 * 64 + b mod 64 = b" by simp
  ultimately show ?thesis
    by (auto simp: char_bytes_def)
qed

lemma char_bytes_small:
  assumes "b < 256"
  shows "list_all (\<lambda>c. c < 256) (char_bytes b)"
proof -
  have "b div 64 < 64" using assms by (simp add: less_mult_imp_div_less)
  moreover have "b mod 64 < 64" by simp
  then have "b mod 64 < 128" by linarith
  ultimately show ?thesis by (simp add: char_bytes_def)
qed

lemma ascii_chars_decoded:
  "list_all (\<lambda>b. b < 256) bs \<Longrightarrow>
   utf8_decode (concat (map char_bytes bs)) = concat (map char_bytes bs)"
  by (induction bs) (simp_all add: char_bytes_decoded)

lemma ascii_chars_units:
  "list_all (\<lambda>b. b < 256) bs \<Longrightarrow> code_units (concat (map char_bytes bs)) = bs"
  by (induction bs) (simp_all add: char_bytes_units)

lemma ascii_chars_small:
  "list_all (\<lambda>b. b < 256) bs \<Longrightarrow> list_all (\<lambda>c. c < 256) (concat (map char_bytes bs))"
  by (induction bs) (simp_all add: char_bytes_small)

lemma of_char_char_of: "list_all (\<lambda>c. c < 256) cs \<Longrightarrow> map of_char (map char_of cs) = (cs :: nat list)"
  by (induction cs) simp_all

lemma concat_char_bytes: "concat (map (\<lambda>b. char_bytes (unat b)) bs) = concat (map char_bytes (map unat bs))"
  by (simp add: comp_def)


lemma ascii_roundtrip: "ascii_decode (ascii_encode bs) = bs"
proof -
  let ?ns = "map unat bs"
  have small: "list_all (\<lambda>b. b < 256) ?ns" by (rule unat_bytes_small)
  have chars: "map of_char (ascii_encode bs) = concat (map char_bytes ?ns)"
    unfolding ascii_encode_def concat_char_bytes
    using ascii_chars_small[OF small] by (rule of_char_char_of)
  have "code_units (utf8_decode (map of_char (ascii_encode bs))) = ?ns"
    by (simp only: chars ascii_chars_decoded[OF small] ascii_chars_units[OF small])
  then show ?thesis by (simp add: ascii_decode_def map_idI)
qed

subsection \<open>The registry\<close>

lemma registry_rfc4648:
  assumes "codec_registry e = Some (Rfc4648 al n p)"
  shows "distinct al \<and> length al = 2 ^ n \<and> CHR ''='' \<notin> set al \<and> 0 < n \<and> n \<le> 8"
  using assms
  by (auto simp: codec_registry_def base2_alphabet_def base8_alphabet_def base16_alphabet_def
      base16upper_alphabet_def base32_alphabet_def base32upper_alphabet_def
      base32hex_alphabet_def base32hexupper_alphabet_def base32z_alphabet_def
      base64_alphabet_def base64url_alphabet_def split: if_splits)

lemma registry_basex:
  assumes "codec_registry e = Some (BaseX al)"
  shows "distinct al \<and> 2 \<le> length al"
  using assms
  by (auto simp: codec_registry_def base10_alphabet_def base36_alphabet_def
      base36upper_alphabet_def base58btc_alphabet_def base58flickr_alphabet_def
      split: if_splits)

lemma registry_text:
  "codec_registry e = Some Utf8 \<longleftrightarrow> e = ''utf8'' \<or> e = ''utf-8'' \<or> e = ''identity''"
  by (auto simp: codec_registry_def split: if_splits)

lemma hi_base64: "uint8arrayToString [0x68, 0x69] ''base64'' = Inr ''aGk''"
  by code_simp

lemma hi_base64_back: "uint8arrayFromString ''aGk'' ''base64'' = Inr [0x68, 0x69]"
  by code_simp

lemma hi_base64urlpad: "uint8arrayToString [0x68, 0x69] ''base64urlpad'' = Inr ''aGk=''"
  by code_simp

lemma hi_base64urlpad_back: "uint8arrayFromString ''aGk='' ''base64urlpad'' = Inr [0x68, 0x69]"
  by code_simp

lemma hi_data_url: "rfc4648_encode base64_alphabet 6 True [0x68, 0x69] = ''aGk=''"
  by code_simp

text \<open>
  C6, as the code has it. For every byte sequence \<open>b\<close> and every encoding name \<open>e\<close> of the
  registry other than the text schemes \<^verbatim>\<open>utf8\<close>, \<^verbatim>\<open>utf-8\<close> and \<^verbatim>\<open>identity\<close>, encoding succeeds and
  \<^verbatim>\<open>uint8arrayFromString(uint8arrayToString(b, e), e)\<close> is \<open>b\<close> again.
\<close>

theorem codec_roundtrip_binary:
  assumes "supported_encoding e" "e \<notin> set [''utf8'', ''utf-8'', ''identity'']"
  shows "\<exists>s. uint8arrayToString b e = Inr s \<and> uint8arrayFromString s e = Inr b"
proof -
  from assms(1) obtain sch where reg: "codec_registry e = Some sch"
    by (auto simp: supported_encoding_def)
  show ?thesis
  proof (cases sch)
    case (Rfc4648 al n p)
    with reg registry_rfc4648 have "rfc4648_decode al n (rfc4648_encode al n p b) = Inr b"
      by (intro rfc4648_roundtrip) blast+
    with reg Rfc4648 show ?thesis
      by (simp add: uint8arrayToString_def uint8arrayFromString_def
          uint8arrayToStringFromLib_def uint8arrayFromStringFromLib_def)
  next
    case (BaseX al)
    with reg registry_basex have "basex_decode al (basex_encode al b) = Inr b"
      by (intro basex_roundtrip) blast+
    with reg BaseX show ?thesis
      by (simp add: uint8arrayToString_def uint8arrayFromString_def
          uint8arrayToStringFromLib_def uint8arrayFromStringFromLib_def)
  next
    case Utf8
    with reg assms(2) show ?thesis by (simp add: registry_text)
  next
    case Ascii
    with reg show ?thesis
      by (simp add: uint8arrayToString_def uint8arrayFromString_def
          uint8arrayToStringFromLib_def uint8arrayFromStringFromLib_def ascii_roundtrip)
  qed
qed

theorem codec_roundtrip_binary_witness:
  "supported_encoding ''base64urlpad''
   \<and> ''base64urlpad'' \<notin> set [''utf8'', ''utf-8'', ''identity'']
   \<and> (\<exists>s. uint8arrayToString [0xff, 0xfe, 0xfd, 0x00] ''base64urlpad'' = Inr s
          \<and> uint8arrayFromString s ''base64urlpad'' = Inr [0xff, 0xfe, 0xfd, 0x00])"
  using codec_roundtrip_binary[of "''base64urlpad''" "[0xff, 0xfe, 0xfd, 0x00]"]
  by (simp add: supported_encoding_def codec_registry_def)

text \<open>
  C6, as it is stated, at the supported scheme \<^verbatim>\<open>utf8\<close> and the one byte 255, which is no
  UTF-8: the text is the replacement character, and its three bytes come back.
\<close>

theorem utf8_roundtrip_fails:
  "supported_encoding ''utf8''
   \<and> uint8arrayToString [0xFF] ''utf8'' = Inr [CHR 0xEF, CHR 0xBF, CHR 0xBD]
   \<and> uint8arrayFromString [CHR 0xEF, CHR 0xBF, CHR 0xBD] ''utf8'' = Inr [0xEF, 0xBF, 0xBD]
   \<and> uint8arrayFromString [CHR 0xEF, CHR 0xBF, CHR 0xBD] ''utf8'' \<noteq> Inr [0xFF]"
  by code_simp

section \<open>Blobs through base64\<close>

lemma new_Blob_single: "blob_bytes (new_Blob [bs]) = bs" "blob_type (new_Blob [bs]) = []"
  by (simp_all add: new_Blob_def)

lemma blob_through_base64:
  assumes "blob_readable b"
  shows "\<exists>s. blobToBase64String b = Resolved s
     \<and> base64StringToBlob s = Inr (new_Blob [blob_bytes b])"
proof -
  let ?s = "rfc4648_encode base64url_alphabet 6 True (blob_bytes b)"
  have enc: "uint8arrayToString (blob_bytes b) ''base64urlpad'' = Inr ?s"
    by (simp add: uint8arrayToString_def uint8arrayToStringFromLib_def codec_registry_def)
  have "rfc4648_decode base64url_alphabet 6 ?s = Inr (blob_bytes b)"
    using registry_rfc4648[of "''base64urlpad''" base64url_alphabet 6 True]
    by (intro rfc4648_roundtrip) (simp_all add: codec_registry_def)
  then have dec: "uint8arrayFromString ?s ''base64urlpad'' = Inr (blob_bytes b)"
    by (simp add: uint8arrayFromString_def uint8arrayFromStringFromLib_def codec_registry_def)
  show ?thesis
    using assms enc dec by (simp add: blobToBase64String_def arrayBuffer_def base64StringToBlob_def)
qed

text \<open>
  C7. For every blob the platform can read, the empty one included, the promise of
  \<^verbatim>\<open>blobToBase64String\<close> resolves, and \<^verbatim>\<open>base64StringToBlob\<close> of the resolved string is a blob
  with the bytes of the original.
\<close>

theorem blob_roundtrip_content:
  assumes "blob_readable b"
  shows "\<exists>s b'. blobToBase64String b = Resolved s \<and> base64StringToBlob s = Inr b'
     \<and> blob_bytes b' = blob_bytes b"
  using blob_through_base64[OF assms] by (auto simp: new_Blob_single)

theorem blob_roundtrip_content_witness:
  "blob_readable \<lparr>blob_bytes = [], blob_type = ''image/png'', blob_readable = True\<rparr>
   \<and> (\<exists>s b'. blobToBase64String \<lparr>blob_bytes = [], blob_type = ''image/png'', blob_readable = True\<rparr>
               = Resolved s
          \<and> base64StringToBlob s = Inr b' \<and> blob_bytes b' = [])"
  using blob_roundtrip_content[of "\<lparr>blob_bytes = [], blob_type = ''image/png'', blob_readable = True\<rparr>"]
  by simp

text \<open>
  C10, as the code has it. For every blob the platform can read, the blob that
  \<^verbatim>\<open>base64StringToBlob\<close> makes of the resolved string has the bytes of the original and the
  empty media type, whatever the type of the original was (line 173 calls \<^verbatim>\<open>new Blob\<close>
  without options): the type of the original is kept exactly when it was empty already.
\<close>

theorem blob_roundtrip_loses_type:
  assumes "blob_readable b"
  shows "\<exists>s b'. blobToBase64String b = Resolved s \<and> base64StringToBlob s = Inr b'
     \<and> blob_bytes b' = blob_bytes b \<and> blob_type b' = []
     \<and> (blob_type b' = blob_type b) = (blob_type b = [])"
  using blob_through_base64[OF assms] by (auto simp: new_Blob_single)

theorem blob_roundtrip_loses_type_witness:
  "blob_readable \<lparr>blob_bytes = [0x89, 0x50], blob_type = ''image/png'', blob_readable = True\<rparr>
   \<and> (\<exists>s b'. blobToBase64String
                 \<lparr>blob_bytes = [0x89, 0x50], blob_type = ''image/png'', blob_readable = True\<rparr>
               = Resolved s
          \<and> base64StringToBlob s = Inr b' \<and> blob_bytes b' = [0x89, 0x50] \<and> blob_type b' = []
          \<and> blob_type b' \<noteq> ''image/png'')"
  using blob_roundtrip_loses_type[of
      "\<lparr>blob_bytes = [0x89, 0x50], blob_type = ''image/png'', blob_readable = True\<rparr>"]
  by auto

text \<open>
  C10, as it is stated, at a blob without a media type: the blob that comes back is the
  original, its media type (the empty one) included.
\<close>

theorem blob_roundtrip_keeps_empty_type:
  "blobToBase64String \<lparr>blob_bytes = [0x68, 0x69], blob_type = [], blob_readable = True\<rparr>
     = Resolved ''aGk=''
   \<and> base64StringToBlob ''aGk=''
     = Inr \<lparr>blob_bytes = [0x68, 0x69], blob_type = [], blob_readable = True\<rparr>"
  by (simp add: blobToBase64String_def arrayBuffer_def base64StringToBlob_def new_Blob_def
      hi_base64urlpad hi_base64urlpad_back)

section \<open>What the promise of fileToDataUrl becomes\<close>

text \<open>
  C3, as the code has it. For every file the promise of \<^verbatim>\<open>fileToDataUrl\<close> is resolved, never
  rejected: with a string that begins with \<^verbatim>\<open>data:\<close> when the platform can read the file, and
  with \<^verbatim>\<open>null\<close> when the read fails.
\<close>

theorem fileToDataUrl_settles:
  "\<exists>v. fileToDataUrl file = Resolved v
     \<and> (if blob_readable file then \<exists>rest. v = Some (''data:'' @ rest) else v = None)"
  by (simp add: fileToDataUrl_def readAsDataURL_def)

theorem fileToDataUrl_settles_witness:
  "fileToDataUrl \<lparr>blob_bytes = [0x68, 0x69], blob_type = ''text/plain'', blob_readable = True\<rparr>
   = Resolved (Some ''data:text/plain;base64,aGk='')"
  using fileToDataUrl_settles[of
      "\<lparr>blob_bytes = [0x68, 0x69], blob_type = ''text/plain'', blob_readable = True\<rparr>"]
  by (simp add: fileToDataUrl_def readAsDataURL_def hi_data_url)

text \<open>
  C3, as it is stated, at a file whose read fails: the promise is resolved with \<^verbatim>\<open>null\<close>; it
  is not rejected with the read error.
\<close>

theorem fileToDataUrl_failed_read_resolves:
  "fileToDataUrl \<lparr>blob_bytes = [0x68, 0x69], blob_type = ''text/plain'', blob_readable = False\<rparr>
     = Resolved None
   \<and> fileToDataUrl \<lparr>blob_bytes = [0x68, 0x69], blob_type = ''text/plain'', blob_readable = False\<rparr>
     \<noteq> Rejected ReadError"
  by (simp add: fileToDataUrl_def readAsDataURL_def)

section \<open>The link that downloadFile clicks and removes\<close>

lemma tag_appendChild: "tag (appendChild p c e) = tag e"
  by (cases e) simp

lemma handle_appendChild: "handle (appendChild p c e) = handle e"
  by (cases e) simp

lemma handle_dropChild: "handle (dropChild p c e) = handle e"
  by (cases e) simp

lemma dropChild_appendChild:
  "c \<notin> set (handles e) \<Longrightarrow> p \<noteq> c \<Longrightarrow> dropChild p c (appendChild p (Element c tg as []) e) = e"
proof (induction e)
  case (Element h t a ks)
  have kids: "map (dropChild p c \<circ> appendChild p (Element c tg as [])) ks = ks"
  proof (rule map_idI)
    fix k assume k: "k \<in> set ks"
    with Element.prems have "c \<notin> set (handles k)" by auto
    with Element.IH k Element.prems show "(dropChild p c \<circ> appendChild p (Element c tg as [])) k = k"
      by simp
  qed
  have keep: "filter (\<lambda>k. handle k \<noteq> c) ks = ks"
  proof -
    have "\<forall>k\<in>set ks. handle k \<noteq> c"
    proof
      fix k assume "k \<in> set ks"
      with Element.prems have "c \<notin> set (handles k)" by auto
      then show "handle k \<noteq> c" by (cases k) auto
    qed
    then show ?thesis by (simp add: filter_id_conv)
  qed
  show ?case using kids keep Element.prems by (simp add: handle_dropChild)
qed

lemma find_map_append:
  assumes "\<And>k. P (f k) = P k" "List.find P ks = Some b"
  shows "List.find P (map f ks @ cs) = Some (f b)"
  using assms(2) by (induction ks) (auto simp: assms(1) split: if_splits)

lemma document_body_kid: "document_body d = Some b \<Longrightarrow> b \<in> set (kids d)"
  by (auto simp: document_body_def find_Some_iff split: if_splits)

lemma handle_in_handles: "handle e \<in> set (handles e)"
  by (cases e) simp

lemma kid_handle: "b \<in> set (kids d) \<Longrightarrow> handle b \<in> set (handles d)"
  using handle_in_handles[of b] by (cases d) auto

lemma document_body_appendChild:
  assumes "document_body d = Some b"
  shows "document_body (appendChild p c d) = Some (appendChild p c b)"
proof -
  obtain h t a ks where d: "d = Element h t a ks" by (cases d)
  with assms have "t = ''html''"
    and "List.find (\<lambda>k. tag k = ''body'' \<or> tag k = ''frameset'') ks = Some b"
    by (auto simp: document_body_def split: if_splits)
  then show ?thesis
    by (simp add: d document_body_def find_map_append tag_appendChild)
qed

lemma has_child_appendChild:
  assumes "b \<in> set (kids d)"
  shows "has_child (handle b) c (appendChild (handle b) (Element c tg as []) d)"
proof -
  obtain h t a ks where d: "d = Element h t a ks" by (cases d)
  obtain hb tb ab kb where b: "b = Element hb tb ab kb" by (cases b)
  have "has_child hb c (appendChild hb (Element c tg as []) b)"
    by (simp add: b)
  moreover have "appendChild hb (Element c tg as []) b
      \<in> set (kids (appendChild hb (Element c tg as []) d))"
    using assms by (simp add: d)
  ultimately have "list_ex (has_child hb c) (kids (appendChild hb (Element c tg as []) d))"
    unfolding list_ex_iff by blast
  then show ?thesis by (simp add: d b)
qed

lemma downloadFile_effect:
  assumes "fresh g \<notin> set (handles (document g))" "document_body (document g) = Some b"
    "uint8arrayToString (data p) ''base64'' = Inr b64"
  shows "downloadFile p g =
     (Inr (), g\<lparr>fresh := Suc (fresh g),
               clicked := clicked g @
                 [Element (fresh g) ''a''
                    [(''href'', ''data:'' @ mimetype p @ '';base64,'' @ b64),
                     (''download'', filename p), (''style'', ''display: none;'')] []]\<rparr>)"
proof -
  let ?link = "Element (fresh g) ''a''
                    [(''href'', ''data:'' @ mimetype p @ '';base64,'' @ b64),
                     (''download'', filename p), (''style'', ''display: none;'')] []"
  let ?d = "appendChild (handle b) ?link (document g)"
  have kid: "b \<in> set (kids (document g))" using assms(2) by (rule document_body_kid)
  then have "handle b \<in> set (handles (document g))" by (rule kid_handle)
  with assms(1) have neq: "handle b \<noteq> fresh g" by auto
  have body': "document_body ?d = Some (appendChild (handle b) ?link b)"
    using assms(2) by (rule document_body_appendChild)
  have child: "has_child (handle b) (fresh g) ?d"
    using kid by (rule has_child_appendChild)
  have undone: "dropChild (handle b) (fresh g) ?d = document g"
    using assms(1) neq by (rule dropChild_appendChild)
  show ?thesis
    using assms(2,3) body' child undone
    by (simp add: downloadFile_def createElement_def setAttribute_def click_def removeChild_def
        handle_appendChild Let_def)
qed

text \<open>
  C5. On a page that has a body, \<^verbatim>\<open>downloadFile\<close> with the file name \<^verbatim>\<open>a.txt\<close>, the two bytes
  of \<^verbatim>\<open>hi\<close> and the type \<^verbatim>\<open>text/plain\<close> returns normally. The element it has clicked is a
  newly created \<^verbatim>\<open>a\<close> whose \<^verbatim>\<open>href\<close> is \<^verbatim>\<open>data:text/plain;base64,\<close> followed by \<^verbatim>\<open>aGk\<close>, the
  encoding of \<^verbatim>\<open>hi\<close> under the scheme \<^verbatim>\<open>base64\<close> (which decodes to the same two bytes), and
  whose \<^verbatim>\<open>download\<close> is \<^verbatim>\<open>a.txt\<close>. When the call returns the document is what it was before:
  the element is no longer in it.
\<close>

theorem downloadFile_hi:
  assumes "wf_page g" "document_body (document g) = Some body"
  shows "downloadFile \<lparr>filename = ''a.txt'', data = [0x68, 0x69], mimetype = ''text/plain''\<rparr> g =
     (Inr (), g\<lparr>fresh := Suc (fresh g),
               clicked := clicked g @
                 [Element (fresh g) ''a''
                    [(''href'', ''data:text/plain;base64,aGk''),
                     (''download'', ''a.txt''), (''style'', ''display: none;'')] []]\<rparr>)
   \<and> uint8arrayFromString ''aGk'' ''base64'' = Inr [0x68, 0x69]"
proof -
  have enc: "uint8arrayToString (data \<lparr>filename = ''a.txt'', data = [0x68, 0x69], mimetype = ''text/plain''\<rparr>) ''base64'' = Inr ''aGk''"
    by (simp add: hi_base64)
  have dec: "uint8arrayFromString ''aGk'' ''base64'' = Inr [0x68, 0x69]"
    by (rule hi_base64_back)
  have "fresh g \<notin> set (handles (document g))"
    using assms(1) by (auto simp: wf_page_def list_all_iff)
  from downloadFile_effect[OF this assms(2) enc] dec show ?thesis by simp
qed

theorem downloadFile_hi_witness:
  "wf_page sample_page
   \<and> document_body (document sample_page)
       = Some (Element 2 ''body'' [] [Element 3 ''div'' [(''id'', ''viewer'')] []])
   \<and> downloadFile \<lparr>filename = ''a.txt'', data = [0x68, 0x69], mimetype = ''text/plain''\<rparr>
        sample_page =
       (Inr (), sample_page\<lparr>fresh := 5,
                  clicked :=
                    [Element 4 ''a''
                       [(''href'', ''data:text/plain;base64,aGk''),
                        (''download'', ''a.txt''), (''style'', ''display: none;'')] []]\<rparr>)"
proof -
  have b: "document_body (document sample_page)
       = Some (Element 2 ''body'' [] [Element 3 ''div'' [(''id'', ''viewer'')] []])"
    by (simp add: sample_page_def document_body_def)
  from downloadFile_hi[OF sample_page_wf b] sample_page_wf b show ?thesis
    by (simp add: sample_page_def)
qed

end
